theory Spec2Isabelle
  imports Complex_Main "HOL-Library.Multiset"
begin

section \<open>Spike times and padded ensembles\<close>

text \<open>
  The module \<^verbatim>\<open>func/sequences.py\<close> works on numpy arrays of spike times in
  milliseconds. An entry is either a real time or the sentinel \<^verbatim>\<open>np.inf\<close> that
  pads a row. Times are modelled as reals (no NaN); the sentinel is the constructor
  \<open>PInf\<close>, the largest element of the order, so that numpy's ascending sort puts it
  last. Comparing and sorting floats is exact. The arithmetic of the generators is
  modelled without rounding; the arithmetic of \<open>translate\<close> is modelled with the rounding
  of float64 and with the wrap-around of int64.
\<close>

datatype xreal = Fin real | PInf

instantiation xreal :: linorder
begin

fun less_eq_xreal :: "xreal \<Rightarrow> xreal \<Rightarrow> bool" where
  "less_eq_xreal (Fin a) (Fin b) = (a \<le> b)"
| "less_eq_xreal (Fin a) PInf = True"
| "less_eq_xreal PInf (Fin b) = False"
| "less_eq_xreal PInf PInf = True"

fun less_xreal :: "xreal \<Rightarrow> xreal \<Rightarrow> bool" where
  "less_xreal (Fin a) (Fin b) = (a < b)"
| "less_xreal (Fin a) PInf = True"
| "less_xreal PInf (Fin b) = False"
| "less_xreal PInf PInf = False"

instance
proof
  fix x y z :: xreal
  show "(x < y) = (x \<le> y \<and> \<not> y \<le> x)"
    by (cases x; cases y) auto
  show "x \<le> x"
    by (cases x) auto
  show "x \<le> y \<Longrightarrow> y \<le> z \<Longrightarrow> x \<le> z"
    by (cases x; cases y; cases z) auto
  show "x \<le> y \<Longrightarrow> y \<le> x \<Longrightarrow> x = y"
    by (cases x; cases y) auto
  show "x \<le> y \<or> y \<le> x"
    by (cases x; cases y) auto
qed

end

text \<open>Elementwise arithmetic of numpy on an entry: \<^verbatim>\<open>inf + d = inf\<close>.\<close>

fun xadd :: "xreal \<Rightarrow> xreal \<Rightarrow> xreal" where
  "xadd (Fin a) (Fin b) = Fin (a + b)"
| "xadd _ _ = PInf"

fun xshift :: "real \<Rightarrow> xreal \<Rightarrow> xreal" where
  "xshift d (Fin a) = Fin (a + d)"
| "xshift d PInf = PInf"

text \<open>
  The Python exceptions of the model. None of the modelled functions contains an
  \<^verbatim>\<open>assert\<close>; \<open>AssertionError\<close> is there to say so.
\<close>

datatype error = ValueError | NameError | AttributeError | TypeError | ZeroDivisionError
  | AssertionError | OverflowError

section \<open>Sequence transforms\<close>

text \<open>
  \<^verbatim>\<open>
  def superimpose(S_1, S_2):
      S = np.full((S_1.shape[0], S_1.shape[1]+S_2.shape[1]), np.inf)
      S[:, :S_1.shape[1]] = S_1
      S[:, S_1.shape[1]:] = S_2
      S.sort(1)
      return S
  \<close>
  An ensemble is the list of its rows, all of one length. The second assignment
  broadcasts: \<open>S_2\<close> must have as many rows as \<open>S_1\<close>, or exactly one row, which is
  then copied into every row; any other row count raises \<^verbatim>\<open>ValueError\<close>.
\<close>

definition superimpose :: "xreal list list \<Rightarrow> xreal list list \<Rightarrow> error + xreal list list" where
  "superimpose S_1 S_2 =
     (if length S_2 = length S_1 then Inr (map2 (\<lambda>a b. sort (a @ b)) S_1 S_2)
      else if length S_2 = 1 then Inr (map (\<lambda>a. sort (a @ hd S_2)) S_1)
      else Inl ValueError)"

text \<open>
  \<^verbatim>\<open>
  def translate(S, del_t, T1, T2):
      S_t = np.array(S)
      S_t -= del_t
      S_t[S_t < T1] += (T2 - T1)
      return S_t
  \<close>
  The scalar arguments are Python numbers: integers of any size, or floats. Python's
  unary minus is exact on both, the difference of two integers is exact, and a
  difference with a float operand converts the other operand to a float and rounds the
  result. The rounding of float64 arithmetic is the parameter \<open>rnd\<close> of the model: it
  maps the exact result of an operation to the float that the operation returns.
  Overflow to an infinity is not modelled.
\<close>

datatype pynum = PyInt int | PyFloat real

fun py_neg :: "pynum \<Rightarrow> pynum" where
  "py_neg (PyInt n) = PyInt (- n)"
| "py_neg (PyFloat x) = PyFloat (- x)"

fun to_float :: "(real \<Rightarrow> real) \<Rightarrow> pynum \<Rightarrow> real" where
  "to_float rnd (PyInt n) = rnd (real_of_int n)"
| "to_float rnd (PyFloat x) = x"

fun py_sub :: "(real \<Rightarrow> real) \<Rightarrow> pynum \<Rightarrow> pynum \<Rightarrow> pynum" where
  "py_sub rnd (PyInt m) (PyInt n) = PyInt (m - n)"
| "py_sub rnd (PyInt m) (PyFloat y) = PyFloat (rnd (to_float rnd (PyInt m) - y))"
| "py_sub rnd (PyFloat x) b = PyFloat (rnd (x - to_float rnd b))"

text \<open>
  The rounding of IEEE 754 binary64, to the nearest float with ties to the even
  significand, for results within the range of the normal floats: the result is a
  multiple of \<open>2 powr (e - 52)\<close>, where \<open>2 powr e \<le> \<bar>v\<bar> < 2 powr (e + 1)\<close>.
\<close>

definition round_even :: "real \<Rightarrow> int" where
  "round_even x =
     (let f = \<lfloor>x\<rfloor>
      in if x - of_int f < 1 / 2 then f
         else if 1 / 2 < x - of_int f then f + 1
         else if even f then f else f + 1)"

definition float64 :: "real \<Rightarrow> real" where
  "float64 v =
     (if v = 0 then 0
      else (let u = 2 powr (of_int \<lfloor>log 2 \<bar>v\<bar>\<rfloor> - 52)
            in of_int (round_even (v / u)) * u))"

text \<open>
  \<^verbatim>\<open>np.array(S)\<close> is an array of float64 when \<open>S\<close> holds a float or the sentinel, and
  an array of int64 when \<open>S\<close> holds integers only. The arithmetic of an int64 array
  wraps around.
\<close>

datatype ndarray = IntArray "int list list" | FloatArray "xreal list list"

definition int64 :: "int \<Rightarrow> bool" where
  "int64 n \<longleftrightarrow> - (2 ^ 63) \<le> n \<and> n < 2 ^ 63"

definition wrap64 :: "int \<Rightarrow> int" where
  "wrap64 n = (n + 2 ^ 63) mod 2 ^ 64 - 2 ^ 63"

text \<open>
  The two statements on one entry \<open>a\<close> of the array: \<open>rnd\<close> is the rounding of the
  array's arithmetic, \<open>del_t\<close>, \<open>T1\<close> and \<open>per\<close> are the values of \<^verbatim>\<open>del_t\<close>,
  \<^verbatim>\<open>T1\<close> and \<^verbatim>\<open>T2 - T1\<close> in the type of the array. \<open>inf - del_t\<close> is
  \<open>inf\<close> and is never below \<open>T1\<close>.
\<close>

definition translate_entry ::
  "('a \<Rightarrow> 'a) \<Rightarrow> 'a \<Rightarrow> 'a \<Rightarrow> 'a \<Rightarrow> 'a \<Rightarrow> 'a :: linordered_ab_group_add" where
  "translate_entry rnd del_t T1 per a =
     (let y = rnd (a - del_t) in if y < T1 then rnd (y + per) else y)"

fun translate_xreal :: "(real \<Rightarrow> real) \<Rightarrow> real \<Rightarrow> real \<Rightarrow> real \<Rightarrow> xreal \<Rightarrow> xreal" where
  "translate_xreal rnd del_t T1 per (Fin a) = Fin (translate_entry rnd del_t T1 per a)"
| "translate_xreal rnd del_t T1 per PInf = PInf"

text \<open>
  On an array of float64 the scalars are converted to float64 and the call returns. On
  an array of int64 the in-place operators must store their result in the array: a
  float \<^verbatim>\<open>del_t\<close> or a float \<^verbatim>\<open>T2 - T1\<close> gives a float64 result, which numpy
  refuses to cast (\<^verbatim>\<open>UFuncTypeError\<close>, a \<^verbatim>\<open>TypeError\<close>), whether or not any entry is
  below \<open>T1\<close>; an integer outside the range of int64 is refused as well
  (\<^verbatim>\<open>OverflowError\<close> since numpy 2, the \<^verbatim>\<open>TypeError\<close> of the cast before). The
  comparison \<^verbatim>\<open>S_t < T1\<close> raises nothing.
\<close>

definition translate ::
  "(real \<Rightarrow> real) \<Rightarrow> ndarray \<Rightarrow> pynum \<Rightarrow> pynum \<Rightarrow> pynum \<Rightarrow> error + ndarray" where
  "translate rnd S del_t T1 T2 =
     (case S of
        FloatArray rows \<Rightarrow>
          Inr (FloatArray (map (map (translate_xreal rnd (to_float rnd del_t) (to_float rnd T1)
                                       (to_float rnd (py_sub rnd T2 T1)))) rows))
      | IntArray rows \<Rightarrow>
          (case del_t of
             PyFloat x \<Rightarrow> Inl TypeError
           | PyInt d \<Rightarrow>
               if \<not> int64 d then Inl OverflowError
               else (case (T1, T2) of
                       (PyInt t1, PyInt t2) \<Rightarrow>
                         if \<not> int64 (t2 - t1) then Inl OverflowError
                         else Inr (IntArray (map (map (translate_entry wrap64 d t1 (t2 - t1))) rows))
                     | _ \<Rightarrow> Inl TypeError)))"

text \<open>The round trip \<^verbatim>\<open>translate(translate(S, -d, T1, T2), d, T1, T2)\<close>.\<close>

definition round_trip ::
  "(real \<Rightarrow> real) \<Rightarrow> ndarray \<Rightarrow> pynum \<Rightarrow> pynum \<Rightarrow> pynum \<Rightarrow> error + ndarray" where
  "round_trip rnd S d T1 T2 =
     (case translate rnd S (py_neg d) T1 T2 of
        Inl e \<Rightarrow> Inl e
      | Inr S' \<Rightarrow> translate rnd S' d T1 T2)"

section \<open>The random source\<close>

text \<open>
  All draws come from numpy's process-wide generator. Its state is modelled as the
  stream of variates it is going to return together with the position reached in that
  stream; a draw returns the variate at the position and advances it. What a variate
  means depends on the call that consumes it: a value in \<open>[0, 1)\<close> for
  \<^verbatim>\<open>np.random.rand\<close>, a standard exponential variate for
  \<^verbatim>\<open>np.random.exponential\<close>, which multiplies it by its scale.
\<close>

type_synonym rng = "(nat \<Rightarrow> real) \<times> nat"

definition rand :: "nat \<Rightarrow> rng \<Rightarrow> real list \<times> rng" where
  \<comment> \<open>\<^verbatim>\<open>np.random.rand(n)\<close>\<close>
  "rand n g = (map (fst g) [snd g ..< snd g + n], (fst g, snd g + n))"

definition rand2 :: "nat \<Rightarrow> nat \<Rightarrow> rng \<Rightarrow> real list list \<times> rng" where
  \<comment> \<open>\<^verbatim>\<open>np.random.rand(rows, cols)\<close>, filled row by row\<close>
  "rand2 rows cols g =
     (map (\<lambda>r. map (fst g) [snd g + r * cols ..< snd g + r * cols + cols]) [0..<rows],
      (fst g, snd g + rows * cols))"

section \<open>Pattern and rate-ensemble builders\<close>

text \<open>
  Synapse and pattern counts are natural numbers. \<^verbatim>\<open>int(N_e/p)\<close> is then the
  quotient \<open>N_e div p\<close>, and raises \<^verbatim>\<open>ZeroDivisionError\<close> for \<open>p = 0\<close>.

  \<^verbatim>\<open>
  def sparse_rates(p, N_e, N_i, mu, r_max):
      rates_e = []
      rates_i = []
      p_max = mu/r_max
      for k in range(p):
          r = 1e-3*r_max*(np.random.rand(N_e + N_i) < p_max)
          rates_e.append(r[:N_e])
          rates_i.append(r[N_e:])
      return rates_e, rates_i
  \<close>
\<close>

fun sparse_rates_loop ::
  "nat \<Rightarrow> nat \<Rightarrow> nat \<Rightarrow> real \<Rightarrow> real \<Rightarrow> rng \<Rightarrow> (real list list \<times> real list list) \<times> rng" where
  "sparse_rates_loop 0 N_e N_i r_max p_max g = (([], []), g)"
| "sparse_rates_loop (Suc k) N_e N_i r_max p_max g =
     (let (u, g1) = rand (N_e + N_i) g;
          r = map (\<lambda>x. 1 / 1000 * r_max * (if x < p_max then 1 else 0)) u;
          ((rates_e, rates_i), g2) = sparse_rates_loop k N_e N_i r_max p_max g1
      in ((take N_e r # rates_e, drop N_e r # rates_i), g2))"

definition sparse_rates ::
  "nat \<Rightarrow> nat \<Rightarrow> nat \<Rightarrow> real \<Rightarrow> real \<Rightarrow> rng \<Rightarrow> (error + real list list \<times> real list list) \<times> rng" where
  "sparse_rates p N_e N_i mu r_max g =
     (if r_max = 0 then (Inl ZeroDivisionError, g)
      else (let (rates, g') = sparse_rates_loop p N_e N_i r_max (mu / r_max) g
            in (Inr rates, g')))"

text \<open>
  \<^verbatim>\<open>
  def assoc_rates(num, N_e, N_i, r_mean, r_max):
      p = int(num**0.5)
      rates_e = []
      rates_i = []
      n_e1 = int(N_e/2)
      n_i1 = int(N_i/2)
      n_e2 = N_e - n_e1
      n_i2 = N_i - n_i1
      re1, ri1 = sparse_rates(p, n_e1, n_i1, r_mean, r_max)
      re2, ri2 = sparse_rates(p, n_e2, n_i2, r_mean, r_max)
      for j in range(p):
          for k in range(p):
              re = np.hstack((re1[j], re2[k]))
              ri = np.hstack((ri1[j], ri2[k]))
              rates_e.append(re)
              rates_i.append(ri)
      return rates_e, rates_i
  \<close>
\<close>

definition assoc_rates ::
  "nat \<Rightarrow> nat \<Rightarrow> nat \<Rightarrow> real \<Rightarrow> real \<Rightarrow> rng \<Rightarrow> (error + real list list \<times> real list list) \<times> rng" where
  "assoc_rates num N_e N_i r_mean r_max g =
     (let p = nat \<lfloor>sqrt (real num)\<rfloor>;
          n_e1 = N_e div 2; n_i1 = N_i div 2;
          n_e2 = N_e - n_e1; n_i2 = N_i - n_i1
      in case sparse_rates p n_e1 n_i1 r_mean r_max g of
           (Inl e, g1) \<Rightarrow> (Inl e, g1)
         | (Inr (re1, ri1), g1) \<Rightarrow>
             (case sparse_rates p n_e2 n_i2 r_mean r_max g1 of
                (Inl e, g2) \<Rightarrow> (Inl e, g2)
              | (Inr (re2, ri2), g2) \<Rightarrow>
                  (Inr (concat (map (\<lambda>j. map (\<lambda>k. re1 ! j @ re2 ! k) [0..<p]) [0..<p]),
                        concat (map (\<lambda>j. map (\<lambda>k. ri1 ! j @ ri2 ! k) [0..<p]) [0..<p])),
                   g2)))"

text \<open>
  \<^verbatim>\<open>list(permutations(label))\<close> of itertools: the permutations in lexicographic
  order of the positions chosen.
\<close>

function permutations :: "'a list \<Rightarrow> 'a list list" where
  "permutations xs =
     (if xs = [] then [[]]
      else concat (map (\<lambda>i. map ((#) (xs ! i)) (permutations (take i xs @ drop (Suc i) xs)))
                       [0..<length xs]))"
  by pat_completeness auto
termination
  by (relation "measure length") auto

text \<open>
  \<^verbatim>\<open>np.hstack\<close> of a non-empty list of arrays with two or more axes and the same
  first extent: entry \<open>a\<close> of the result is the concatenation of the entries \<open>a\<close> of the
  arguments.
\<close>

definition hstack :: "'a list list list \<Rightarrow> 'a list list" where
  "hstack ms = map (\<lambda>a. concat (map (\<lambda>m. m ! a) ms)) [0..<length (hd ms)]"

text \<open>
  \<^verbatim>\<open>
  def assoc_rates_time_squence(p, N_e, N_i, r_mean, r_max):
      rates_e = []
      rates_i = []
      n_e1 = int(N_e/p)
      n_i1 = int(N_i/p)
      re = []
      ri = []
      for j in range(p):
          re1, ri1 = sparse_rates(p, n_e1, n_i1, r_mean, r_max)
          re.append(re1)
          ri.append(ri1)
      re = np.hstack(re)
      ri = np.hstack(ri)
      if (N_e-len(re[0])<=p) and (N_e-len(re[0])>0):
          for i in range(N_e-len(re[0])+1):
              for j in range(len(re)):
                  np.append(re[j], 0.0)
      elif N_e-len(re[0])>p:
          raise ValueError("something wrong")
      else:
          pass
      (the same for N_i and ri)
      label = np.arange(p)
      num = len(list(permutations(label)))
      for j in range(num):
          rates_e.append(re[0])
          rates_i.append(ri[0])
      return rates_e, rates_i
  \<close>
  \<^verbatim>\<open>np.append\<close> returns a new array, which the first branch throws away: that
  branch leaves \<open>re\<close> as it is.
\<close>

fun sparse_rates_repeat ::
  "nat \<Rightarrow> nat \<Rightarrow> nat \<Rightarrow> nat \<Rightarrow> real \<Rightarrow> real \<Rightarrow> rng
     \<Rightarrow> (error + real list list list \<times> real list list list) \<times> rng" where
  "sparse_rates_repeat 0 p n_e1 n_i1 r_mean r_max g = (Inr ([], []), g)"
| "sparse_rates_repeat (Suc j) p n_e1 n_i1 r_mean r_max g =
     (case sparse_rates p n_e1 n_i1 r_mean r_max g of
        (Inl e, g1) \<Rightarrow> (Inl e, g1)
      | (Inr (re1, ri1), g1) \<Rightarrow>
          (case sparse_rates_repeat j p n_e1 n_i1 r_mean r_max g1 of
             (Inl e, g2) \<Rightarrow> (Inl e, g2)
           | (Inr (re, ri), g2) \<Rightarrow> (Inr (re1 # re, ri1 # ri), g2)))"

definition check_rates :: "int \<Rightarrow> int \<Rightarrow> error option" where
  "check_rates d p =
     (if d \<le> p \<and> 0 < d then None
      else if p < d then Some ValueError
      else None)"

definition assoc_rates_time_squence ::
  "nat \<Rightarrow> nat \<Rightarrow> nat \<Rightarrow> real \<Rightarrow> real \<Rightarrow> rng \<Rightarrow> (error + real list list \<times> real list list) \<times> rng" where
  "assoc_rates_time_squence p N_e N_i r_mean r_max g =
     (if p = 0 then (Inl ZeroDivisionError, g)
      else
        let n_e1 = N_e div p; n_i1 = N_i div p
        in case sparse_rates_repeat p p n_e1 n_i1 r_mean r_max g of
             (Inl e, g1) \<Rightarrow> (Inl e, g1)
           | (Inr (res, ris), g1) \<Rightarrow>
               (let re = hstack res; ri = hstack ris;
                    num = length (permutations [0..<p])
                in case check_rates (int N_e - int (length (re ! 0))) (int p) of
                     Some e \<Rightarrow> (Inl e, g1)
                   | None \<Rightarrow>
                       (case check_rates (int N_i - int (length (ri ! 0))) (int p) of
                          Some e \<Rightarrow> (Inl e, g1)
                        | None \<Rightarrow> (Inr (replicate num (re ! 0), replicate num (ri ! 0)), g1))))"

text \<open>
  \<^verbatim>\<open>
  def build_seqs(p, N_e, N_i, T0, T, n):
      S_e = []
      S_i = []
      for k in range(p):
          S_e.append(T0 + (T-T0)*np.random.rand(N_e, n))
          S_i.append(T0 + (T-T0)*np.random.rand(N_i, n))
      return S_e, S_i
  \<close>
\<close>

fun build_seqs ::
  "nat \<Rightarrow> nat \<Rightarrow> nat \<Rightarrow> real \<Rightarrow> real \<Rightarrow> nat \<Rightarrow> rng
     \<Rightarrow> (real list list list \<times> real list list list) \<times> rng" where
  "build_seqs 0 N_e N_i T0 T n g = (([], []), g)"
| "build_seqs (Suc k) N_e N_i T0 T n g =
     (let (u_e, g1) = rand2 N_e n g;
          (u_i, g2) = rand2 N_i n g1;
          ((S_e, S_i), g3) = build_seqs k N_e N_i T0 T n g2
      in ((map (map (\<lambda>u. T0 + (T - T0) * u)) u_e # S_e,
           map (map (\<lambda>u. T0 + (T - T0) * u)) u_i # S_i), g3))"

text \<open>
  \<^verbatim>\<open>
  def assoc_seqs_time_sequence(p, N_e, N_i, T0, T, n, deltaT = 20):
      S_e = []
      S_i = []
      label = np.arange(p)
      num = len(list(permutations(label)))
      n_e1 = int(N_e/p)
      n_i1 = int(N_i/p)
      permutation_label = list(permutations(label))
      for j, order in enumerate(permutation_label):
          se = []
          si = []
          for i in range(p):
              se1, si1 = build_seqs(p, n_e1, n_i1, T0+deltaT*order[i], T + deltaT*order[i], n)
              se.append(se1)
              si.append(si1)
          se = np.hstack(se)
          si = np.hstack(si)
          if (N_e - len(se[0]) <= p) and (N_e - len(se[0]) > 0):
              for i in range(N_e - len(se[0])+1):
                  for j in range(len(se)):
                      se[j].append(np.asarray([]))
          elif N_e - len(se[0]) > p:
              raise ValueError("something wrong")
          else:
              pass
          (the same for N_i and si)
          s_e = []
          s_i = []
          for i in range(len(se[0])):
              s_e.append(np.asarray([]))
              for k in order:
                  s_e[i] = np.append(s_e[i], se[k][i])
          (the same for s_i)
          S_e.append(np.asarray(s_e))
          S_i.append(np.asarray(s_i))
      return S_e, S_i
  \<close>
  After \<^verbatim>\<open>np.hstack\<close>, \<open>se\<close> is a numpy array, and so is \<open>se[j]\<close>. A numpy array has
  no method \<^verbatim>\<open>append\<close>: the first branch, which is entered with both loops
  non-empty, raises \<^verbatim>\<open>AttributeError\<close>.
\<close>

fun build_seqs_features ::
  "nat list \<Rightarrow> nat \<Rightarrow> nat \<Rightarrow> nat \<Rightarrow> real \<Rightarrow> real \<Rightarrow> nat \<Rightarrow> real \<Rightarrow> nat list \<Rightarrow> rng
     \<Rightarrow> (real list list list list \<times> real list list list list) \<times> rng" where
  "build_seqs_features [] p n_e1 n_i1 T0 T n deltaT order g = (([], []), g)"
| "build_seqs_features (i # is) p n_e1 n_i1 T0 T n deltaT order g =
     (let ((se1, si1), g1) =
            build_seqs p n_e1 n_i1 (T0 + deltaT * real (order ! i)) (T + deltaT * real (order ! i)) n g;
          ((se, si), g2) = build_seqs_features is p n_e1 n_i1 T0 T n deltaT order g1
      in ((se1 # se, si1 # si), g2))"

definition check_seqs :: "int \<Rightarrow> int \<Rightarrow> error option" where
  "check_seqs d p =
     (if d \<le> p \<and> 0 < d then Some AttributeError
      else if p < d then Some ValueError
      else None)"

definition order_rows :: "nat list \<Rightarrow> real list list list \<Rightarrow> real list list" where
  "order_rows order se =
     map (\<lambda>i. concat (map (\<lambda>k. se ! k ! i) order)) [0..<length (se ! 0)]"

fun seqs_patterns ::
  "nat list list \<Rightarrow> nat \<Rightarrow> nat \<Rightarrow> nat \<Rightarrow> real \<Rightarrow> real \<Rightarrow> nat \<Rightarrow> real \<Rightarrow> rng
     \<Rightarrow> (error + real list list list \<times> real list list list) \<times> rng" where
  "seqs_patterns [] p N_e N_i T0 T n deltaT g = (Inr ([], []), g)"
| "seqs_patterns (order # rest) p N_e N_i T0 T n deltaT g =
     (let ((ses, sis), g1) =
            build_seqs_features [0..<p] p (N_e div p) (N_i div p) T0 T n deltaT order g;
          se = hstack ses; si = hstack sis
      in case check_seqs (int N_e - int (length (se ! 0))) (int p) of
           Some e \<Rightarrow> (Inl e, g1)
         | None \<Rightarrow>
             (case check_seqs (int N_i - int (length (si ! 0))) (int p) of
                Some e \<Rightarrow> (Inl e, g1)
              | None \<Rightarrow>
                  (case seqs_patterns rest p N_e N_i T0 T n deltaT g1 of
                     (Inl e, g2) \<Rightarrow> (Inl e, g2)
                   | (Inr (S_e, S_i), g2) \<Rightarrow>
                       (Inr (order_rows order se # S_e, order_rows order si # S_i), g2))))"

definition assoc_seqs_time_sequence ::
  "nat \<Rightarrow> nat \<Rightarrow> nat \<Rightarrow> real \<Rightarrow> real \<Rightarrow> nat \<Rightarrow> real \<Rightarrow> rng
     \<Rightarrow> (error + real list list list \<times> real list list list) \<times> rng" where
  "assoc_seqs_time_sequence p N_e N_i T0 T n deltaT g =
     (if p = 0 then (Inl ZeroDivisionError, g)
      else seqs_patterns (permutations [0..<p]) p N_e N_i T0 T n deltaT g)"

section \<open>Stationary and rate-modulated Poisson generators\<close>

text \<open>
  \<^verbatim>\<open>np.random.seed(int(time.time()))\<close> replaces the state of the process-wide
  generator by the state that belongs to the seed. The seeding function of numpy is a
  parameter \<open>seeded\<close> of the model: \<open>seeded n\<close> is the stream of variates that follows
  \<^verbatim>\<open>np.random.seed(n)\<close>. The reading of the clock, \<^verbatim>\<open>int(time.time())\<close>, is
  the parameter \<open>now\<close>.
\<close>

definition np_random_seed :: "(int \<Rightarrow> nat \<Rightarrow> real) \<Rightarrow> int \<Rightarrow> rng" where
  "np_random_seed seeded n = (seeded n, 0)"

text \<open>
  \<^verbatim>\<open>np.random.exponential(scale)\<close> raises \<^verbatim>\<open>ValueError\<close> for a negative scale
  and otherwise returns the scale times the next standard exponential variate.
  \<open>exponential_inv rate\<close> is the call \<^verbatim>\<open>np.random.exponential(1 / rate)\<close>; the
  rates are Python floats, for which \<^verbatim>\<open>1 / 0.0\<close> raises
  \<^verbatim>\<open>ZeroDivisionError\<close>.
\<close>

definition exponential :: "real \<Rightarrow> rng \<Rightarrow> (error + real) \<times> rng" where
  "exponential scale g =
     (if scale < 0 then (Inl ValueError, g)
      else (Inr (scale * fst g (snd g)), (fst g, Suc (snd g))))"

definition exponential_inv :: "real \<Rightarrow> rng \<Rightarrow> (error + real) \<times> rng" where
  "exponential_inv rate g =
     (if rate = 0 then (Inl ZeroDivisionError, g) else exponential (1 / rate) g)"

definition xsum :: "xreal list \<Rightarrow> xreal" where
  \<comment> \<open>Python's \<^verbatim>\<open>sum\<close>\<close>
  "xsum xs = foldl xadd (Fin 0) xs"

fun cumsum_from :: "xreal \<Rightarrow> xreal list \<Rightarrow> xreal list" where
  "cumsum_from acc [] = []"
| "cumsum_from acc (x # xs) = xadd acc x # cumsum_from (xadd acc x) xs"

definition cumsum :: "xreal list \<Rightarrow> xreal list" where
  \<comment> \<open>\<^verbatim>\<open>np.cumsum\<close>\<close>
  "cumsum xs = cumsum_from (Fin 0) xs"

text \<open>
  The train of one synapse, as \<open>build_rate_seq\<close> and the stationary branches of
  \<open>build_rate_seq_modulated\<close> compute it:
  \<^verbatim>\<open>
          if rate > 0:
              rate1 = rate*mod_amp*0.6
              spike_times = [np.random.exponential(1 / rate1)]
          else:
              spike_times = [np.inf]
          while sum(spike_times) < T - T0:
              spike_times.append(np.random.exponential(1 / rate1))
          s_k.append(T0 + np.cumsum(spike_times[:-1]))
  \<close>
  In \<open>build_rate_seq\<close> and in the rows that are not modulated, \<open>rate1\<close> is \<open>rate\<close>
  itself. The \<^verbatim>\<open>while\<close> loop need not end (the variates may all be 0), so it is
  a partial function: \<open>None\<close> stands for a loop that runs forever.
\<close>

partial_function (option) append_until ::
  "real \<Rightarrow> real \<Rightarrow> xreal list \<Rightarrow> rng \<Rightarrow> ((error + xreal list) \<times> rng) option" where
  "append_until rate1 horizon spike_times g =
     (if xsum spike_times < Fin horizon then
        (case exponential_inv rate1 g of
           (Inl e, g') \<Rightarrow> Some (Inl e, g')
         | (Inr a, g') \<Rightarrow> append_until rate1 horizon (spike_times @ [Fin a]) g')
      else Some (Inr spike_times, g))"

definition first_spike :: "real \<Rightarrow> real \<Rightarrow> rng \<Rightarrow> (error + xreal list) \<times> rng" where
  "first_spike rate rate1 g =
     (if rate > 0 then
        (case exponential_inv rate1 g of
           (Inl e, g') \<Rightarrow> (Inl e, g')
         | (Inr a, g') \<Rightarrow> (Inr [Fin a], g'))
      else (Inr [PInf], g))"

definition stationary_train ::
  "real \<Rightarrow> real \<Rightarrow> real \<Rightarrow> real \<Rightarrow> rng \<Rightarrow> ((error + xreal list) \<times> rng) option" where
  "stationary_train rate rate1 T0 T g =
     (case first_spike rate rate1 g of
        (Inl e, g1) \<Rightarrow> Some (Inl e, g1)
      | (Inr spike_times, g1) \<Rightarrow>
          (case append_until rate1 (T - T0) spike_times g1 of
             None \<Rightarrow> None
           | Some (Inl e, g2) \<Rightarrow> Some (Inl e, g2)
           | Some (Inr spike_times', g2) \<Rightarrow>
               Some (Inr (map (xshift T0) (cumsum (butlast spike_times'))), g2)))"

text \<open>
  The loop over the synapses, \<^verbatim>\<open>for i, rate in enumerate(rates)\<close>, with the
  computation of one row as a parameter, and the padding that ends both builders:
  \<^verbatim>\<open>
      num_spikes = [len(s) for s in s_k]
      s_k_pad = np.full((len(rates), np.max(num_spikes)), np.inf)
      for j, (n, s) in enumerate(zip(num_spikes, s_k)):
          s_k_pad[j, :n] = s
      return s_k_pad
  \<close>
  \<^verbatim>\<open>np.max\<close> of an empty list raises \<^verbatim>\<open>ValueError\<close>.
\<close>

fun rows_loop ::
  "(nat \<Rightarrow> real \<Rightarrow> rng \<Rightarrow> ((error + xreal list) \<times> rng) option) \<Rightarrow> (nat \<times> real) list \<Rightarrow> rng
     \<Rightarrow> ((error + xreal list list) \<times> rng) option" where
  "rows_loop row [] g = Some (Inr [], g)"
| "rows_loop row ((i, rate) # rest) g =
     (case row i rate g of
        None \<Rightarrow> None
      | Some (Inl e, g1) \<Rightarrow> Some (Inl e, g1)
      | Some (Inr s, g1) \<Rightarrow>
          (case rows_loop row rest g1 of
             None \<Rightarrow> None
           | Some (Inl e, g2) \<Rightarrow> Some (Inl e, g2)
           | Some (Inr s_k, g2) \<Rightarrow> Some (Inr (s # s_k), g2)))"

definition pad_rows :: "xreal list list \<Rightarrow> error + xreal list list" where
  "pad_rows s_k =
     (if s_k = [] then Inl ValueError
      else (let width = foldr max (map length s_k) 0
            in Inr (map (\<lambda>s. s @ replicate (width - length s) PInf) s_k)))"

definition padded ::
  "((error + xreal list list) \<times> rng) option \<Rightarrow> ((error + xreal list list) \<times> rng) option" where
  "padded res =
     (case res of
        None \<Rightarrow> None
      | Some (Inl e, g1) \<Rightarrow> Some (Inl e, g1)
      | Some (Inr s_k, g1) \<Rightarrow> Some (pad_rows s_k, g1))"

text \<open>
  \<^verbatim>\<open>
  def build_rate_seq(rates, T0, T):
      s_k = []
      np.random.seed(int(time.time()))
      for rate in rates:
          if rate > 0:
              spike_times = [np.random.exponential(1/rate)]
          else:
              spike_times = [np.inf]
          while sum(spike_times) < T - T0:
              spike_times.append(np.random.exponential(1/rate))
          s_k.append(T0 + np.cumsum(spike_times[:-1]))
      (padding)
  \<close>
  The argument \<open>g\<close> is the state of the generator when the function is called, for
  instance the state left by a call of \<^verbatim>\<open>np.random.seed\<close> by the caller. The result
  is the padded array, or the exception, together with the state of the generator at
  the end.
\<close>

definition build_rate_seq ::
  "(int \<Rightarrow> nat \<Rightarrow> real) \<Rightarrow> int \<Rightarrow> rng \<Rightarrow> real list \<Rightarrow> real \<Rightarrow> real
     \<Rightarrow> ((error + xreal list list) \<times> rng) option" where
  "build_rate_seq seeded now g rates T0 T =
     padded (rows_loop (\<lambda>i rate. stationary_train rate rate T0 T)
                       (zip [0..<length rates] rates) (np_random_seed seeded now))"

text \<open>
  \<^verbatim>\<open>np.arange(start, stop, step)\<close> on floats: \<open>ceil((stop - start) / step)\<close>
  values (none if that is negative), and \<^verbatim>\<open>ZeroDivisionError\<close> for a zero step.
\<close>

definition arange :: "real \<Rightarrow> real \<Rightarrow> real \<Rightarrow> error + real list" where
  "arange start stop step =
     (if step = 0 then Inl ZeroDivisionError
      else Inr (map (\<lambda>i. start + real i * step) [0..<nat \<lceil>(stop - start) / step\<rceil>]))"

text \<open>
  \<^verbatim>\<open>
  def gen_poisson_spikes(FR, t_win, dt = 0.025, tstop = 250):
      t_squ = np.arange(0, tstop+t_win, t_win)
      spike_train = []
      if FR.size < t_squ.size - 1:
          warnings.warn('Not enough firing rates, will attach zeros to the end')
          np.append(FR, np.zeros(t_squ.size - 1 - FR.size))
      for i, fr in zip(range(t_squ.size - 1), FR):
          t_spike = t_squ[i]
          if fr <= 0:
              continue
          while t_spike < t_squ[i + 1]:
              a = np.random.exponential(1 / fr)
              t_spike = t_spike + a
              if (t_spike < t_squ[i + 1]) & (a > 0):
                  spike_train.append(t_spike)
      spike_train = np.asarray(spike_train)
      return spike_train
  \<close>
  The module imports \<^verbatim>\<open>numpy\<close>, \<^verbatim>\<open>numba\<close>, \<^verbatim>\<open>itertools.permutations\<close>,
  \<^verbatim>\<open>random\<close> and \<^verbatim>\<open>time\<close>, and never \<^verbatim>\<open>warnings\<close>: evaluating the name
  \<^verbatim>\<open>warnings\<close> raises \<^verbatim>\<open>NameError\<close>. The argument \<open>dt\<close> is not used.
\<close>

partial_function (option) window_spikes ::
  "real \<Rightarrow> real \<Rightarrow> real \<Rightarrow> real list \<Rightarrow> rng \<Rightarrow> ((error + real list) \<times> rng) option" where
  "window_spikes fr t_next t_spike spike_train g =
     (if t_spike < t_next then
        (case exponential_inv fr g of
           (Inl e, g') \<Rightarrow> Some (Inl e, g')
         | (Inr a, g') \<Rightarrow>
             window_spikes fr t_next (t_spike + a)
               (if t_spike + a < t_next \<and> a > 0 then spike_train @ [t_spike + a] else spike_train)
               g')
      else Some (Inr spike_train, g))"

fun windows_loop ::
  "(nat \<times> real) list \<Rightarrow> real list \<Rightarrow> real list \<Rightarrow> rng \<Rightarrow> ((error + real list) \<times> rng) option" where
  "windows_loop [] t_squ spike_train g = Some (Inr spike_train, g)"
| "windows_loop ((i, fr) # rest) t_squ spike_train g =
     (if fr \<le> 0 then windows_loop rest t_squ spike_train g
      else
        (case window_spikes fr (t_squ ! (i + 1)) (t_squ ! i) spike_train g of
           None \<Rightarrow> None
         | Some (Inl e, g') \<Rightarrow> Some (Inl e, g')
         | Some (Inr spike_train', g') \<Rightarrow> windows_loop rest t_squ spike_train' g'))"

definition gen_poisson_spikes ::
  "real list \<Rightarrow> real \<Rightarrow> real \<Rightarrow> real \<Rightarrow> rng \<Rightarrow> ((error + real list) \<times> rng) option" where
  "gen_poisson_spikes FR t_win dt tstop g =
     (case arange 0 (tstop + t_win) t_win of
        Inl e \<Rightarrow> Some (Inl e, g)
      | Inr t_squ \<Rightarrow>
          if int (length FR) < int (length t_squ) - 1 then Some (Inl NameError, g)
          else windows_loop (zip [0..<length t_squ - 1] FR) t_squ [] g)"

text \<open>
  A modulated row of \<open>build_rate_seq_modulated\<close> (with \<open>rate1\<close> computed by the caller
  as \<^verbatim>\<open>rate*mod_amp/np.sqrt(2)\<close> or \<^verbatim>\<open>rate*mod_amp\<close>):
  \<^verbatim>\<open>
                  if rate > 0:
                      rate1 = rate * mod_amp
                      FR = rate1 * np.sin(2 * np.pi * mod_freq * t / 1000+np.pi/2) + rate1
                      spike_times = gen_poisson_spikes(FR, t_win, dt, T - T0)
                  else:
                      spike_times = [np.inf]
                  spike_times = np.delete(spike_times, np.where(spike_times < 0)[0])
                  spike_times = np.sort(spike_times, axis = None)
                  s_k.append(T0 + spike_times)
  \<close>
  For \<open>rate \<le> 0\<close> the name \<open>spike_times\<close> is bound to a Python list, and comparing
  a list with the integer 0 raises \<^verbatim>\<open>TypeError\<close>.
\<close>

definition modulated_train ::
  "real \<Rightarrow> real \<Rightarrow> real \<Rightarrow> real list \<Rightarrow> real \<Rightarrow> real \<Rightarrow> real \<Rightarrow> real \<Rightarrow> rng
     \<Rightarrow> ((error + xreal list) \<times> rng) option" where
  "modulated_train rate rate1 mod_freq t t_win dt T0 T g =
     (if rate > 0 then
        (let FR = map (\<lambda>x. rate1 * sin (2 * pi * mod_freq * x / 1000 + pi / 2) + rate1) t
         in case gen_poisson_spikes FR t_win dt (T - T0) g of
              None \<Rightarrow> None
            | Some (Inl e, g') \<Rightarrow> Some (Inl e, g')
            | Some (Inr spike_times, g') \<Rightarrow>
                Some (Inr (map (\<lambda>x. Fin (T0 + x)) (sort (filter (\<lambda>x. \<not> x < 0) spike_times))), g'))
      else Some (Inl TypeError, g))"

text \<open>
  \<^verbatim>\<open>
  def build_rate_seq_modulated(rates, T0, T, mod_freq, mod_list = [], t_win = 10,
                               dt = 0.1, mod_amp = 2.5):
      t = np.arange(T0, T+t_win, t_win)
      s_k = []
      np.random.seed(int(time.time()))
      if mod_freq == 0:
          if len(mod_list)>0:
              for i, rate in enumerate(rates):
                  if i in mod_list:
                      (stationary row with rate1 = rate*mod_amp*0.6)
                  else:
                      (stationary row with rate)
          else:
              for rate in rates:
                  (stationary row with rate1 = rate * mod_amp*0.6)
      else:
          if len(mod_list)>0:
              for i, rate in enumerate(rates):
                  if i in mod_list:
                      (modulated row with rate1 = rate*mod_amp/np.sqrt(2))
                  else:
                      (stationary row with rate)
          else:
              for rate in rates:
                  (modulated row with rate1 = rate * mod_amp)
      (padding)
  \<close>
\<close>

definition modulated_row ::
  "real \<Rightarrow> real \<Rightarrow> real \<Rightarrow> nat list \<Rightarrow> real list \<Rightarrow> real \<Rightarrow> real \<Rightarrow> real
     \<Rightarrow> nat \<Rightarrow> real \<Rightarrow> rng \<Rightarrow> ((error + xreal list) \<times> rng) option" where
  "modulated_row T0 T mod_freq mod_list t t_win dt mod_amp i rate =
     (if mod_freq = 0 then
        (if length mod_list > 0 then
           (if i \<in> set mod_list then stationary_train rate (rate * mod_amp * (6 / 10)) T0 T
            else stationary_train rate rate T0 T)
         else stationary_train rate (rate * mod_amp * (6 / 10)) T0 T)
      else
        (if length mod_list > 0 then
           (if i \<in> set mod_list
            then modulated_train rate (rate * mod_amp / sqrt 2) mod_freq t t_win dt T0 T
            else stationary_train rate rate T0 T)
         else modulated_train rate (rate * mod_amp) mod_freq t t_win dt T0 T))"

definition build_rate_seq_modulated ::
  "(int \<Rightarrow> nat \<Rightarrow> real) \<Rightarrow> int \<Rightarrow> rng \<Rightarrow> real list \<Rightarrow> real \<Rightarrow> real \<Rightarrow> real \<Rightarrow> nat list
     \<Rightarrow> real \<Rightarrow> real \<Rightarrow> real \<Rightarrow> ((error + xreal list list) \<times> rng) option" where
  "build_rate_seq_modulated seeded now g rates T0 T mod_freq mod_list t_win dt mod_amp =
     (case arange T0 (T + t_win) t_win of
        Inl e \<Rightarrow> Some (Inl e, g)
      | Inr t \<Rightarrow>
          padded (rows_loop (modulated_row T0 T mod_freq mod_list t t_win dt mod_amp)
                            (zip [0..<length rates] rates) (np_random_seed seeded now)))"

section \<open>Non-homogeneous Poisson generator\<close>









section \<open>Invariants of rows\<close>

text \<open>
  The invariant of a row of a padded ensemble: the entries before the first sentinel
  are sorted ascending, and from the first sentinel on all entries are sentinels.
\<close>

definition row_invariant :: "xreal list \<Rightarrow> bool" where
  "row_invariant row =
     (let ts = takeWhile (\<lambda>x. x \<noteq> PInf) row
      in sorted ts \<and> dropWhile (\<lambda>x. x \<noteq> PInf) row = replicate (length row - length ts) PInf)"

text \<open>The spike intervals of one synapse while they are drawn: real and not negative.\<close>

definition nonneg_fin :: "xreal list \<Rightarrow> bool" where
  "nonneg_fin xs = list_all (\<lambda>x. case x of Fin a \<Rightarrow> 0 \<le> a | PInf \<Rightarrow> False) xs"

section \<open>Properties of the transforms\<close>

lemma sort_append_commute: "sort (a @ b) = sort (b @ (a :: xreal list))"
  by (rule properties_for_sort) simp_all

lemma map2_sort_append_commute:
  "length A = length B \<Longrightarrow>
     map2 (\<lambda>a b. sort (a @ b)) A B = map2 (\<lambda>a b. sort (a @ (b :: xreal list))) B A"
proof (induction A arbitrary: B)
  case Nil
  then show ?case by simp
next
  case (Cons a A)
  then obtain b B' where B: "B = b # B'" by (cases B) auto
  with Cons show ?case by (simp add: sort_append_commute)
qed



lemma round_even_of_int: "round_even (of_int m) = m"
  by (simp add: round_even_def)

lemma float64_eq:
  assumes "v \<noteq> 0" and "2 powr of_int e \<le> \<bar>v\<bar>" and "\<bar>v\<bar> < 2 powr (of_int e + 1)"
  shows "float64 v = of_int (round_even (v / 2 powr (of_int e - 52))) * 2 powr (of_int e - 52)"
proof -
  have "\<lfloor>log 2 \<bar>v\<bar>\<rfloor> = e"
    using assms by (simp add: floor_log_eq_powr_iff)
  then show ?thesis
    using assms(1) by (simp add: float64_def Let_def)
qed

lemma float64_of_int:
  assumes "\<bar>n\<bar> < 2 ^ 53"
  shows "float64 (of_int n) = of_int n"
proof (cases "n = 0")
  case True
  then show ?thesis by (simp add: float64_def)
next
  case False
  define v :: real where "v = of_int n"
  define e where "e = \<lfloor>log 2 \<bar>v\<bar>\<rfloor>"
  have v0: "v \<noteq> 0" and v1: "1 \<le> \<bar>v\<bar>" and v53: "\<bar>v\<bar> < 2 ^ 53"
    using False assms by (simp_all add: v_def flip: of_int_abs)
  have le: "2 powr of_int e \<le> \<bar>v\<bar>" and lt: "\<bar>v\<bar> < 2 powr (of_int e + 1)"
    using floor_log_eq_powr_iff [of "\<bar>v\<bar>" 2 e] v0 by (simp_all add: e_def)
  have e0: "0 \<le> e"
    using v1 by (simp add: e_def)
  have "(2::real) ^ 53 = 2 powr of_int 53"
    by simp
  then have "2 powr of_int e < (2::real) powr of_int 53"
    using le v53 by (simp only:)
  then have "real_of_int e < real_of_int 53"
    by (subst (asm) powr_less_cancel_iff) simp_all
  then have e52: "e \<le> 52"
    by simp
  define k where "k = nat (52 - e)"
  have k: "real_of_int e - 52 = - real k"
    using e52 by (simp add: k_def)
  have u: "(2::real) powr (of_int e - 52) = 1 / 2 ^ k"
    by (simp only: k powr_minus_divide powr_realpow zero_less_numeral)
  have "v / 2 powr (of_int e - 52) = of_int (n * 2 ^ k)"
    by (simp add: u v_def)
  then have "round_even (v / 2 powr (of_int e - 52)) = n * 2 ^ k"
    by (simp only: round_even_of_int)
  then have "float64 v = of_int (n * 2 ^ k) * (1 / 2 ^ k)"
    using float64_eq [OF v0 le lt] by (simp only: u)
  then show ?thesis
    by (simp add: v_def)
qed

lemma float64_numeral: "numeral k < (2 ^ 53 :: int) \<Longrightarrow> float64 (numeral k) = numeral k"
  using float64_of_int [of "numeral k"] by simp

lemma float64_neg_numeral:
  "numeral k < (2 ^ 53 :: int) \<Longrightarrow> float64 (- numeral k) = - numeral k"
  using float64_of_int [of "- numeral k"] by simp

lemma float64_0: "float64 0 = 0"
  by (simp add: float64_def)

lemma float64_1: "float64 1 = 1"
  using float64_of_int [of 1] by simp

lemma float64_neg_1: "float64 (- 1) = - 1"
  using float64_of_int [of "- 1"] by simp

lemmas float64_small = float64_numeral float64_neg_numeral float64_0 float64_1 float64_neg_1

lemma round_even_minus: "round_even (- x) = - round_even x"
proof -
  have fl: "\<lfloor>- x\<rfloor> = - \<lceil>x\<rceil>"
    by (simp add: ceiling_def)
  show ?thesis
  proof (cases "x = of_int \<lfloor>x\<rfloor>")
    case True
    then obtain m where "x = of_int m" ..
    then show ?thesis
      by (simp add: round_even_of_int flip: of_int_minus)
  next
    case False
    then have c: "\<lceil>x\<rceil> = \<lfloor>x\<rfloor> + 1"
      by (simp add: ceiling_altdef)
    show ?thesis
      unfolding round_even_def Let_def fl c
      by (auto simp: algebra_simps)
  qed
qed

lemma float64_minus: "float64 (- v) = - float64 v"
  by (simp add: float64_def Let_def round_even_minus)

lemma to_float_float64_neg: "to_float float64 (py_neg d) = - to_float float64 d"
  by (cases d) (simp_all add: float64_minus)

lemma wrap64_exact: "wrap64 n = n \<longleftrightarrow> int64 n"
  unfolding wrap64_def int64_def
proof
  assume w: "(n + 2 ^ 63) mod 2 ^ 64 - 2 ^ 63 = n"
  have "0 \<le> (n + 2 ^ 63) mod (2 ^ 64 :: int)" "(n + 2 ^ 63) mod (2 ^ 64 :: int) < 2 ^ 64"
    by simp_all
  with w show "- (2 ^ 63) \<le> n \<and> n < 2 ^ 63"
    by simp
next
  assume "- (2 ^ 63) \<le> n \<and> n < 2 ^ 63"
  then have "(n + 2 ^ 63) mod 2 ^ 64 = n + 2 ^ 63"
    by (intro mod_pos_pos_trivial) simp_all
  then show "(n + 2 ^ 63) mod 2 ^ 64 - 2 ^ 63 = n"
    by simp
qed









text \<open>
  Without the exactness of \<open>a + D\<close> the entry is restored only up to rounding, also
  for \<open>d \<ge> 0\<close> and an entry inside the window: the floats nearest to 0.1 and 0.2 are
  \<open>3602879701896397 / 2\<^sup>5\<^sup>5\<close> and \<open>3602879701896397 / 2\<^sup>5\<^sup>4\<close>; their sum lies halfway
  between two floats and is rounded to \<open>5404319552844596 / 2\<^sup>5\<^sup>4\<close>
  (0.30000000000000004), and the round trip returns \<open>1801439850948199 / 2\<^sup>5\<^sup>4\<close>
  (0.10000000000000003).
\<close>

lemma float64_sum_example:
  "float64 (10808639105689191 / 2 ^ 55) = 5404319552844596 / 2 ^ 54"
proof -
  have "float64 (10808639105689191 / 2 ^ 55)
      = of_int (round_even (10808639105689191 / 2 ^ 55 / 2 powr (of_int (- 2) - 52)))
          * 2 powr (of_int (- 2) - 52)"
    by (rule float64_eq) (simp_all add: powr_minus_divide)
  also have "10808639105689191 / 2 ^ 55 / 2 powr (of_int (- 2) - 52) = (10808639105689191 / 2 :: real)"
    by (simp add: powr_minus_divide)
  also have "round_even (10808639105689191 / 2) = 5404319552844596"
    by (simp add: round_even_def)
  finally show ?thesis
    by (simp add: powr_minus_divide)
qed

lemma float64_difference_example:
  "float64 (1801439850948199 / 2 ^ 54) = 1801439850948199 / 2 ^ 54"
proof -
  have "float64 (1801439850948199 / 2 ^ 54)
      = of_int (round_even (1801439850948199 / 2 ^ 54 / 2 powr (of_int (- 4) - 52)))
          * 2 powr (of_int (- 4) - 52)"
    by (rule float64_eq) (simp_all add: powr_minus_divide)
  also have "1801439850948199 / 2 ^ 54 / 2 powr (of_int (- 4) - 52) = real_of_int 7205759403792796"
    by (simp add: powr_minus_divide)
  also have "round_even (real_of_int 7205759403792796) = 7205759403792796"
    by (rule round_even_of_int)
  finally show ?thesis
    by (simp add: powr_minus_divide)
qed

lemma translate_round_trip_rounding:
  "round_trip float64 (FloatArray [[Fin (3602879701896397 / 2 ^ 55)]])
       (PyFloat (3602879701896397 / 2 ^ 54)) (PyInt 0) (PyInt 10)
     = Inr (FloatArray [[Fin (1801439850948199 / 2 ^ 54)]]) \<and>
   Fin (1801439850948199 / 2 ^ 54) \<noteq> Fin (3602879701896397 / 2 ^ 55)"
proof -
  have s: "3602879701896397 / 2 ^ 55 + 3602879701896397 / 2 ^ 54 = (10808639105689191 / 2 ^ 55 :: real)"
    by simp
  have d: "5404319552844596 / 2 ^ 54 - 3602879701896397 / 2 ^ 54 = (1801439850948199 / 2 ^ 54 :: real)"
    by simp
  have "round_trip float64 (FloatArray [[Fin (3602879701896397 / 2 ^ 55)]])
       (PyFloat (3602879701896397 / 2 ^ 54)) (PyInt 0) (PyInt 10)
     = Inr (FloatArray [[Fin (1801439850948199 / 2 ^ 54)]])"
    by (simp add: round_trip_def translate_def translate_entry_def float64_small
        s d float64_sum_example float64_difference_example del: power_numeral)
  moreover have "Fin (1801439850948199 / 2 ^ 54) \<noteq> Fin (3602879701896397 / 2 ^ 55)"
    by simp
  ultimately show ?thesis
    by (rule conjI)
qed

text \<open>
  Claim C8. For two ensembles with the same number of rows, \<open>superimpose\<close> gives the
  same result in either order, and on the two one-row ensembles \<open>[[1, 2, inf]]\<close> and
  \<open>[[0.5, inf, inf]]\<close> it gives \<open>[[0.5, 1, 2, inf, inf, inf]]\<close>.
\<close>

theorem superimpose_commutative:
  "(\<forall>A B. length A = length B \<longrightarrow> superimpose A B = superimpose B A) \<and>
   superimpose [[Fin 1, Fin 2, PInf]] [[Fin (1/2), PInf, PInf]]
     = Inr [[Fin (1/2), Fin 1, Fin 2, PInf, PInf, PInf]]"
proof
  show "\<forall>A B. length A = length B \<longrightarrow> superimpose A B = superimpose B A"
    by (simp add: superimpose_def map2_sort_append_commute)
  show "superimpose [[Fin 1, Fin 2, PInf]] [[Fin (1/2), PInf, PInf]]
     = Inr [[Fin (1/2), Fin 1, Fin 2, PInf, PInf, PInf]]"
    by (simp add: superimpose_def)
qed

theorem superimpose_commutative_witness:
  "superimpose [[Fin 3, PInf], [Fin 7, Fin 9]] [[Fin 4], [PInf]]
     = Inr [[Fin 3, Fin 4, PInf], [Fin 7, Fin 9, PInf]] \<and>
   superimpose [[Fin 4], [PInf]] [[Fin 3, PInf], [Fin 7, Fin 9]]
     = Inr [[Fin 3, Fin 4, PInf], [Fin 7, Fin 9, PInf]]"
  using superimpose_commutative
  by (simp add: superimpose_def)

section \<open>Properties of the builders\<close>

lemma length_permutations: "length (permutations xs) = fact (length xs)"
proof (induction "length xs" arbitrary: xs)
  case 0
  then show ?case by simp
next
  case (Suc n)
  have rec: "length (permutations (take i xs @ drop (Suc i) xs)) = fact n" if "i < length xs" for i
  proof -
    have len: "n = length (take i xs @ drop (Suc i) xs)"
      using that Suc.hyps(2) by simp
    show ?thesis
      using Suc.hyps(1) [OF len] len by simp
  qed
  have "xs \<noteq> []"
    using Suc.hyps(2) by auto
  then have "length (permutations xs) =
        sum_list (map (\<lambda>i. length (permutations (take i xs @ drop (Suc i) xs))) [0..<length xs])"
    by (subst permutations.simps) (simp add: length_concat comp_def del: permutations.simps)
  also have "\<dots> = sum_list (map (\<lambda>i. fact n) [0..<length xs])"
    by (rule arg_cong [where f = sum_list], rule map_cong) (simp_all add: rec del: permutations.simps)
  also have "\<dots> = fact (length xs)"
    using Suc.hyps(2) [symmetric] by (simp add: sum_list_triv)
  finally show ?case .
qed

lemma sparse_rates_loop_shape:
  "\<exists>res ris g'. sparse_rates_loop p N_e N_i r_max p_max g = ((res, ris), g') \<and>
      length res = p \<and> length ris = p \<and>
      (\<forall>r\<in>set res. length r = N_e) \<and> (\<forall>r\<in>set ris. length r = N_i)"
proof (induction p arbitrary: g)
  case 0
  then show ?case by simp
next
  case (Suc p)
  obtain res ris g' where
    "sparse_rates_loop p N_e N_i r_max p_max (snd (rand (N_e + N_i) g)) = ((res, ris), g')"
    "length res = p" "length ris = p"
    "\<forall>r\<in>set res. length r = N_e" "\<forall>r\<in>set ris. length r = N_i"
    using Suc.IH by blast
  then show ?case
    by (simp add: rand_def split_def Let_def)
qed

lemma sparse_rates_shape:
  assumes "r_max \<noteq> 0"
  shows "\<exists>res ris g'. sparse_rates p N_e N_i mu r_max g = (Inr (res, ris), g') \<and>
      length res = p \<and> length ris = p \<and>
      (\<forall>r\<in>set res. length r = N_e) \<and> (\<forall>r\<in>set ris. length r = N_i)"
proof -
  obtain res ris g' where
    "sparse_rates_loop p N_e N_i r_max (mu / r_max) g = ((res, ris), g')"
    "length res = p" "length ris = p"
    "\<forall>r\<in>set res. length r = N_e" "\<forall>r\<in>set ris. length r = N_i"
    using sparse_rates_loop_shape by blast
  then show ?thesis
    using assms by (simp add: sparse_rates_def)
qed

lemma sparse_rates_repeat_shape:
  assumes "r_max \<noteq> 0"
  shows "\<exists>res ris g'. sparse_rates_repeat j p n_e1 n_i1 mu r_max g = (Inr (res, ris), g') \<and>
      length res = j \<and> length ris = j \<and>
      (\<forall>m\<in>set res. length m = p \<and> (\<forall>r\<in>set m. length r = n_e1)) \<and>
      (\<forall>m\<in>set ris. length m = p \<and> (\<forall>r\<in>set m. length r = n_i1))"
proof (induction j arbitrary: g)
  case 0
  then show ?case by simp
next
  case (Suc j)
  obtain re1 ri1 g1 where first:
    "sparse_rates p n_e1 n_i1 mu r_max g = (Inr (re1, ri1), g1)"
    "length re1 = p" "length ri1 = p"
    "\<forall>r\<in>set re1. length r = n_e1" "\<forall>r\<in>set ri1. length r = n_i1"
    using sparse_rates_shape [OF assms] by blast
  obtain res ris g2 where rest:
    "sparse_rates_repeat j p n_e1 n_i1 mu r_max g1 = (Inr (res, ris), g2)"
    "length res = j" "length ris = j"
    "\<forall>m\<in>set res. length m = p \<and> (\<forall>r\<in>set m. length r = n_e1)"
    "\<forall>m\<in>set ris. length m = p \<and> (\<forall>r\<in>set m. length r = n_i1)"
    using Suc.IH by blast
  show ?case
    using first rest by simp
qed

lemma length_concat_const:
  "(\<forall>x\<in>set xs. length x = n) \<Longrightarrow> length (concat xs) = length xs * n"
  by (induction xs) auto

lemma hstack_row0:
  assumes "ms \<noteq> []" and "\<forall>m\<in>set ms. length m = p \<and> (\<forall>r\<in>set m. length r = n)" and "0 < p"
  shows "length (hstack ms ! 0) = length ms * n"
proof -
  have "length (hd ms) = p"
    using assms by (cases ms) auto
  then have "hstack ms ! 0 = concat (map (\<lambda>m. m ! 0) ms)"
    using assms(3) by (simp add: hstack_def)
  moreover have "\<forall>x\<in>set (map (\<lambda>m. m ! 0) ms). length x = n"
    using assms(2,3) by auto
  ultimately show ?thesis
    using length_concat_const [of "map (\<lambda>m. m ! 0) ms" n] by simp
qed

lemma int_remainder: "int N - int (p * (N div p)) = int (N mod p)"
proof -
  have "int (p * (N div p)) + int (N mod p) = int N"
    by (simp only: of_nat_add [symmetric] mult_div_mod_eq)
  then show ?thesis by linarith
qed

lemma check_rates_mod: "0 < p \<Longrightarrow> check_rates (int N - int (p * (N div p))) (int p) = None"
  by (simp only: int_remainder) (simp add: check_rates_def)

lemma assoc_rates_time_squence_result:
  assumes "0 < p" and "r_max \<noteq> 0"
  shows "\<exists>v w g'. assoc_rates_time_squence p N_e N_i r_mean r_max g =
           (Inr (replicate (fact p) v, replicate (fact p) w), g')"
proof -
  obtain res ris g1 where rep:
    "sparse_rates_repeat p p (N_e div p) (N_i div p) r_mean r_max g = (Inr (res, ris), g1)"
    "length res = p" "length ris = p"
    "\<forall>m\<in>set res. length m = p \<and> (\<forall>r\<in>set m. length r = N_e div p)"
    "\<forall>m\<in>set ris. length m = p \<and> (\<forall>r\<in>set m. length r = N_i div p)"
    using sparse_rates_repeat_shape [OF assms(2)] by blast
  have ne: "res \<noteq> []" "ris \<noteq> []"
    using rep(2,3) assms(1) by auto
  have le: "length (hstack res ! 0) = p * (N_e div p)"
    using hstack_row0 [OF ne(1) rep(4) assms(1)] rep(2) by simp
  have li: "length (hstack ris ! 0) = p * (N_i div p)"
    using hstack_row0 [OF ne(2) rep(5) assms(1)] rep(3) by simp
  have ce: "check_rates (int N_e - int (length (hstack res ! 0))) (int p) = None"
    by (simp only: le check_rates_mod [OF assms(1)])
  have ci: "check_rates (int N_i - int (length (hstack ris ! 0))) (int p) = None"
    by (simp only: li check_rates_mod [OF assms(1)])
  show ?thesis
    using assms(1) rep(1)
    by (simp add: assoc_rates_time_squence_def Let_def ce ci length_permutations
        del: permutations.simps)
qed

lemma isqrt_square: "nat \<lfloor>sqrt (real (q * q))\<rfloor> = q"
  by simp

lemma concat_grid_length:
  "length (concat (map (\<lambda>j. map (f j) [0..<p]) [0..<m])) = m * p"
  by (induction m) simp_all

lemma concat_grid_nth:
  "j < m \<Longrightarrow> k < p \<Longrightarrow> concat (map (\<lambda>j. map (f j) [0..<p]) [0..<m]) ! (j * p + k) = f j k"
proof (induction m)
  case 0
  then show ?case by simp
next
  case (Suc m)
  show ?case
  proof (cases "j < m")
    case True
    then have "j * p + k < m * p"
      using Suc.prems(2)
      by (metis add_less_cancel_left less_le_trans mult_Suc mult_le_mono1 add.commute Suc_leI)
    then show ?thesis
      using Suc.IH [OF True Suc.prems(2)]
      by (simp add: nth_append concat_grid_length)
  next
    case False
    then have "j = m" using Suc.prems(1) by simp
    then show ?thesis
      using Suc.prems(2) by (simp add: nth_append concat_grid_length)
  qed
qed

lemma build_seqs_shape:
  "\<exists>S_e S_i g'. build_seqs k N_e N_i T0 T n g = ((S_e, S_i), g') \<and>
      length S_e = k \<and> length S_i = k \<and>
      (\<forall>m\<in>set S_e. length m = N_e) \<and> (\<forall>m\<in>set S_i. length m = N_i)"
proof (induction k arbitrary: g)
  case 0
  then show ?case by simp
next
  case (Suc k)
  obtain S_e S_i g' where
    "build_seqs k N_e N_i T0 T n (snd (rand2 N_i n (snd (rand2 N_e n g)))) = ((S_e, S_i), g')"
    "length S_e = k" "length S_i = k"
    "\<forall>m\<in>set S_e. length m = N_e" "\<forall>m\<in>set S_i. length m = N_i"
    using Suc.IH by blast
  then show ?case
    by (simp add: rand2_def split_def Let_def)
qed

lemma build_seqs_features_shape:
  "\<exists>ses sis g'. build_seqs_features is p n_e1 n_i1 T0 T n deltaT order g = ((ses, sis), g') \<and>
      length ses = length is \<and> length sis = length is \<and>
      (\<forall>S\<in>set ses. length S = p \<and> (\<forall>m\<in>set S. length m = n_e1)) \<and>
      (\<forall>S\<in>set sis. length S = p \<and> (\<forall>m\<in>set S. length m = n_i1))"
proof (induction "is" arbitrary: g)
  case Nil
  then show ?case by simp
next
  case (Cons i "is")
  obtain se1 si1 g1 where first:
    "build_seqs p n_e1 n_i1 (T0 + deltaT * real (order ! i)) (T + deltaT * real (order ! i)) n g
       = ((se1, si1), g1)"
    "length se1 = p" "length si1 = p"
    "\<forall>m\<in>set se1. length m = n_e1" "\<forall>m\<in>set si1. length m = n_i1"
    using build_seqs_shape by blast
  obtain ses sis g2 where rest:
    "build_seqs_features is p n_e1 n_i1 T0 T n deltaT order g1 = ((ses, sis), g2)"
    "length ses = length is" "length sis = length is"
    "\<forall>S\<in>set ses. length S = p \<and> (\<forall>m\<in>set S. length m = n_e1)"
    "\<forall>S\<in>set sis. length S = p \<and> (\<forall>m\<in>set S. length m = n_i1)"
    using Cons.IH by blast
  show ?case
    using first rest by simp
qed

lemma check_seqs_mod:
  "0 < p \<Longrightarrow> check_seqs (int N - int (p * (N div p))) (int p)
     = (if N mod p = 0 then None else Some AttributeError)"
  by (simp only: int_remainder) (simp add: check_seqs_def)

lemma seqs_patterns_remainder:
  assumes "0 < p" and "N_e mod p \<noteq> 0 \<or> N_i mod p \<noteq> 0"
  shows "fst (seqs_patterns (order # rest) p N_e N_i T0 T n deltaT g) = Inl AttributeError"
proof -
  obtain ses sis g1 where feat:
    "build_seqs_features [0..<p] p (N_e div p) (N_i div p) T0 T n deltaT order g = ((ses, sis), g1)"
    "length ses = length [0..<p]" "length sis = length [0..<p]"
    "\<forall>S\<in>set ses. length S = p \<and> (\<forall>m\<in>set S. length m = N_e div p)"
    "\<forall>S\<in>set sis. length S = p \<and> (\<forall>m\<in>set S. length m = N_i div p)"
    using build_seqs_features_shape by blast
  have ne: "ses \<noteq> []" "sis \<noteq> []"
    using feat(2,3) assms(1) by auto
  have le: "length (hstack ses ! 0) = p * (N_e div p)"
    using hstack_row0 [OF ne(1) feat(4) assms(1)] feat(2) by simp
  have li: "length (hstack sis ! 0) = p * (N_i div p)"
    using hstack_row0 [OF ne(2) feat(5) assms(1)] feat(3) by simp
  have ce: "check_seqs (int N_e - int (length (hstack ses ! 0))) (int p)
              = (if N_e mod p = 0 then None else Some AttributeError)"
    by (simp only: le check_seqs_mod [OF assms(1)])
  have ci: "check_seqs (int N_i - int (length (hstack sis ! 0))) (int p)
              = (if N_i mod p = 0 then None else Some AttributeError)"
    by (simp only: li check_seqs_mod [OF assms(1)])
  show ?thesis
    using assms(2) feat(1) by (auto simp: Let_def ce ci)
qed

lemma permutations_nonempty: "permutations xs \<noteq> []"
proof -
  have "length (permutations xs) \<noteq> 0"
    by (simp only: length_permutations) simp
  then show ?thesis by fastforce
qed

lemma assoc_seqs_time_sequence_remainder:
  assumes "0 < p" and "N_e mod p \<noteq> 0 \<or> N_i mod p \<noteq> 0"
  shows "fst (assoc_seqs_time_sequence p N_e N_i T0 T n deltaT g) = Inl AttributeError"
proof -
  obtain order rest where "permutations [0..<p] = order # rest"
    using permutations_nonempty [of "[0..<p]"] by (cases "permutations [0..<p]") auto
  then show ?thesis
    using assms(1) seqs_patterns_remainder [OF assms]
    by (simp add: assoc_seqs_time_sequence_def del: permutations.simps seqs_patterns.simps)
qed

lemma assoc_rates_result:
  assumes "r_max \<noteq> 0"
  shows "\<exists>re1 ri1 g1 re2 ri2 g2 rates_e rates_i.
      sparse_rates q (N_e div 2) (N_i div 2) r_mean r_max g = (Inr (re1, ri1), g1) \<and>
      sparse_rates q (N_e - N_e div 2) (N_i - N_i div 2) r_mean r_max g1 = (Inr (re2, ri2), g2) \<and>
      assoc_rates (q * q) N_e N_i r_mean r_max g = (Inr (rates_e, rates_i), g2) \<and>
      length rates_e = q * q \<and> length rates_i = q * q \<and>
      (\<forall>j<q. \<forall>k<q.
         rates_e ! (j * q + k) = re1 ! j @ re2 ! k \<and>
         rates_i ! (j * q + k) = ri1 ! j @ ri2 ! k \<and>
         length (re1 ! j) = N_e div 2 \<and> length (re2 ! k) = N_e - N_e div 2 \<and>
         length (ri1 ! j) = N_i div 2 \<and> length (ri2 ! k) = N_i - N_i div 2)"
proof -
  obtain re1 ri1 g1 where first:
    "sparse_rates q (N_e div 2) (N_i div 2) r_mean r_max g = (Inr (re1, ri1), g1)"
    "length re1 = q" "length ri1 = q"
    "\<forall>r\<in>set re1. length r = N_e div 2" "\<forall>r\<in>set ri1. length r = N_i div 2"
    using sparse_rates_shape [OF assms] by blast
  obtain re2 ri2 g2 where second:
    "sparse_rates q (N_e - N_e div 2) (N_i - N_i div 2) r_mean r_max g1 = (Inr (re2, ri2), g2)"
    "length re2 = q" "length ri2 = q"
    "\<forall>r\<in>set re2. length r = N_e - N_e div 2" "\<forall>r\<in>set ri2. length r = N_i - N_i div 2"
    using sparse_rates_shape [OF assms] by blast
  have res: "assoc_rates (q * q) N_e N_i r_mean r_max g =
      (Inr (concat (map (\<lambda>j. map (\<lambda>k. re1 ! j @ re2 ! k) [0..<q]) [0..<q]),
            concat (map (\<lambda>j. map (\<lambda>k. ri1 ! j @ ri2 ! k) [0..<q]) [0..<q])), g2)"
    using first(1) second(1)
    by (simp only: assoc_rates_def isqrt_square Let_def) simp
  show ?thesis
    using first second
    by (simp add: res concat_grid_length concat_grid_nth)
qed

text \<open>
  Claim C4, at the failing input \<open>p = 2\<close>, \<open>N_e = 3\<close>, \<open>N_i = 2\<close>, \<open>T0 = 0\<close>,
  \<open>T = 100\<close>, \<open>n = 1\<close>, \<open>deltaT = 20\<close>: the remainder of \<open>N_e\<close> is 1, which is at most
  \<open>p\<close>, and \<open>assoc_seqs_time_sequence\<close> does not pad and succeed but raises
  \<^verbatim>\<open>AttributeError\<close>, whatever the random draws.
\<close>

theorem assoc_seqs_time_sequence_attribute_error:
  "fst (assoc_seqs_time_sequence 2 3 2 0 100 1 20 g) = Inl AttributeError"
  by (rule assoc_seqs_time_sequence_remainder) simp_all

text \<open>
  Claim C5. For \<open>num = q * q\<close> and \<open>r_max \<noteq> 0\<close>, \<open>assoc_rates\<close> returns \<open>q * q\<close>
  excitatory and \<open>q * q\<close> inhibitory rate vectors; the vector of pattern \<open>(j, k)\<close>, at
  index \<open>j * q + k\<close>, is the rate vector of feature \<open>j\<close> of the first sparse ensemble,
  drawn on the first half of the synapses, followed by the rate vector of feature \<open>k\<close> of
  the second sparse ensemble, drawn on the other half. For \<open>p \<ge> 1\<close>,
  \<open>assoc_rates_time_squence\<close> returns \<open>p!\<close> rate vectors of each kind.
\<close>

theorem assoc_rates_lengths:
  assumes "r_max \<noteq> 0"
  shows "(\<exists>re1 ri1 g1 re2 ri2 g2 rates_e rates_i.
      sparse_rates q (N_e div 2) (N_i div 2) r_mean r_max g = (Inr (re1, ri1), g1) \<and>
      sparse_rates q (N_e - N_e div 2) (N_i - N_i div 2) r_mean r_max g1 = (Inr (re2, ri2), g2) \<and>
      assoc_rates (q * q) N_e N_i r_mean r_max g = (Inr (rates_e, rates_i), g2) \<and>
      length rates_e = q * q \<and> length rates_i = q * q \<and>
      (\<forall>j<q. \<forall>k<q.
         rates_e ! (j * q + k) = re1 ! j @ re2 ! k \<and>
         rates_i ! (j * q + k) = ri1 ! j @ ri2 ! k \<and>
         length (re1 ! j) = N_e div 2 \<and> length (re2 ! k) = N_e - N_e div 2 \<and>
         length (ri1 ! j) = N_i div 2 \<and> length (ri2 ! k) = N_i - N_i div 2)) \<and>
    (1 \<le> p \<longrightarrow>
      (\<exists>rates_e rates_i g'.
         assoc_rates_time_squence p N_e N_i r_mean r_max g = (Inr (rates_e, rates_i), g') \<and>
         length rates_e = fact p \<and> length rates_i = fact p))"
proof (intro conjI impI)
  show "\<exists>re1 ri1 g1 re2 ri2 g2 rates_e rates_i.
      sparse_rates q (N_e div 2) (N_i div 2) r_mean r_max g = (Inr (re1, ri1), g1) \<and>
      sparse_rates q (N_e - N_e div 2) (N_i - N_i div 2) r_mean r_max g1 = (Inr (re2, ri2), g2) \<and>
      assoc_rates (q * q) N_e N_i r_mean r_max g = (Inr (rates_e, rates_i), g2) \<and>
      length rates_e = q * q \<and> length rates_i = q * q \<and>
      (\<forall>j<q. \<forall>k<q.
         rates_e ! (j * q + k) = re1 ! j @ re2 ! k \<and>
         rates_i ! (j * q + k) = ri1 ! j @ ri2 ! k \<and>
         length (re1 ! j) = N_e div 2 \<and> length (re2 ! k) = N_e - N_e div 2 \<and>
         length (ri1 ! j) = N_i div 2 \<and> length (ri2 ! k) = N_i - N_i div 2)"
    by (rule assoc_rates_result [OF assms])
next
  assume "1 \<le> p"
  then have "0 < p" by simp
  from assoc_rates_time_squence_result [OF this assms, of N_e N_i r_mean g]
  obtain v w g' where
    "assoc_rates_time_squence p N_e N_i r_mean r_max g =
       (Inr (replicate (fact p) v, replicate (fact p) w), g')"
    by blast
  then show "\<exists>rates_e rates_i g'.
         assoc_rates_time_squence p N_e N_i r_mean r_max g = (Inr (rates_e, rates_i), g') \<and>
         length rates_e = fact p \<and> length rates_i = fact p"
    by simp
qed

theorem assoc_rates_lengths_witness:
  "(10::real) \<noteq> 0 \<and> (1::nat) \<le> 2 \<and>
   (\<exists>re1 ri1 g1 re2 ri2 g2 rates_e rates_i.
      sparse_rates 2 (5 div 2) (3 div 2) 5 10 ((\<lambda>i. real i / 7), 0) = (Inr (re1, ri1), g1) \<and>
      sparse_rates 2 (5 - 5 div 2) (3 - 3 div 2) 5 10 g1 = (Inr (re2, ri2), g2) \<and>
      assoc_rates (2 * 2) 5 3 5 10 ((\<lambda>i. real i / 7), 0) = (Inr (rates_e, rates_i), g2) \<and>
      length rates_e = 2 * 2 \<and> length rates_i = 2 * 2 \<and>
      rates_e ! (1 * 2 + 0) = re1 ! 1 @ re2 ! 0 \<and>
      rates_i ! (1 * 2 + 0) = ri1 ! 1 @ ri2 ! 0) \<and>
   (\<exists>rates_e rates_i g'.
      assoc_rates_time_squence 2 5 3 5 10 ((\<lambda>i. real i / 7), 0) = (Inr (rates_e, rates_i), g') \<and>
      length rates_e = fact 2 \<and> length rates_i = fact 2)"
proof -
  have h: "(10::real) \<noteq> 0" by simp
  have p: "(1::nat) \<le> 2" by simp
  have j: "(1::nat) < 2" and k: "(0::nat) < 2" by simp_all
  from assoc_rates_lengths [OF h, of 2 5 3 5 "((\<lambda>i. real i / 7), 0)" 2]
  show ?thesis
    using h p j k by blast
qed

lemma hstack_row0_concat:
  assumes "ms \<noteq> []" and "\<forall>m\<in>set ms. length m = p \<and> (\<forall>r\<in>set m. length r = n)" and "0 < p"
  shows "hstack ms ! 0 = concat (map (\<lambda>m. m ! 0) ms)"
proof -
  have "length (hd ms) = p"
    using assms by (cases ms) auto
  then show ?thesis
    using assms(3) by (simp add: hstack_def)
qed

lemma assoc_rates_time_squence_first_row:
  assumes "0 < p" and "r_max \<noteq> 0"
  shows "\<exists>res ris g'.
      sparse_rates_repeat p p (N_e div p) (N_i div p) r_mean r_max g = (Inr (res, ris), g') \<and>
      length res = p \<and> length ris = p \<and>
      assoc_rates_time_squence p N_e N_i r_mean r_max g =
        (Inr (replicate (fact p) (hstack res ! 0), replicate (fact p) (hstack ris ! 0)), g') \<and>
      hstack res ! 0 = concat (map (\<lambda>re1. re1 ! 0) res) \<and>
      hstack ris ! 0 = concat (map (\<lambda>ri1. ri1 ! 0) ris) \<and>
      length (hstack res ! 0) = p * (N_e div p) \<and>
      length (hstack ris ! 0) = p * (N_i div p)"
proof -
  obtain res ris g1 where rep:
    "sparse_rates_repeat p p (N_e div p) (N_i div p) r_mean r_max g = (Inr (res, ris), g1)"
    "length res = p" "length ris = p"
    "\<forall>m\<in>set res. length m = p \<and> (\<forall>r\<in>set m. length r = N_e div p)"
    "\<forall>m\<in>set ris. length m = p \<and> (\<forall>r\<in>set m. length r = N_i div p)"
    using sparse_rates_repeat_shape [OF assms(2)] by blast
  have ne: "res \<noteq> []" "ris \<noteq> []"
    using rep(2,3) assms(1) by auto
  have le: "length (hstack res ! 0) = p * (N_e div p)"
    using hstack_row0 [OF ne(1) rep(4) assms(1)] rep(2) by simp
  have li: "length (hstack ris ! 0) = p * (N_i div p)"
    using hstack_row0 [OF ne(2) rep(5) assms(1)] rep(3) by simp
  have ce: "check_rates (int N_e - int (length (hstack res ! 0))) (int p) = None"
    by (simp only: le check_rates_mod [OF assms(1)])
  have ci: "check_rates (int N_i - int (length (hstack ris ! 0))) (int p) = None"
    by (simp only: li check_rates_mod [OF assms(1)])
  have val: "assoc_rates_time_squence p N_e N_i r_mean r_max g =
        (Inr (replicate (fact p) (hstack res ! 0), replicate (fact p) (hstack ris ! 0)), g1)"
    using assms(1) rep(1)
    by (simp add: assoc_rates_time_squence_def Let_def ce ci length_permutations
        del: permutations.simps)
  show ?thesis
    using rep(1,2,3) val le li
      hstack_row0_concat [OF ne(1) rep(4) assms(1)] hstack_row0_concat [OF ne(2) rep(5) assms(1)]
    by blast
qed

lemma sparse_rates_repeat_example:
  "fst (sparse_rates_repeat 2 2 (5 div 2) (3 div 2) 5 10
          ((\<lambda>i. if even i then 1 / 10 else 9 / 10), 0))
     = Inr ([[[1 / 100, 0], [0, 1 / 100]], [[1 / 100, 0], [0, 1 / 100]]],
            [[[1 / 100], [0]], [[1 / 100], [0]]])"
  by code_simp


text \<open>
  Claim C10. For \<open>p \<ge> 1\<close> (and \<open>r_max \<noteq> 0\<close>, which \<open>sparse_rates\<close> divides by), let
  \<open>res\<close> and \<open>ris\<close> be the \<open>p\<close> sparse ensembles that the loop of
  \<open>assoc_rates_time_squence\<close> draws. The call returns \<open>p!\<close> copies of the first row of
  the stacked excitatory ensemble, \<open>hstack res ! 0\<close>, and \<open>p!\<close> copies of the first row
  of the stacked inhibitory ensemble, \<open>hstack ris ! 0\<close>. That row is the concatenation of
  the first rate vectors of the \<open>p\<close> ensembles and has \<open>p * (N_e div p)\<close> entries
  (\<open>p * (N_i div p)\<close> for the inhibitory one): all returned rate vectors are the same
  vector, whatever the permutation.
\<close>

theorem assoc_rates_time_squence_identical:
  assumes "1 \<le> p" and "r_max \<noteq> 0"
  shows "\<exists>res ris g'.
      sparse_rates_repeat p p (N_e div p) (N_i div p) r_mean r_max g = (Inr (res, ris), g') \<and>
      length res = p \<and> length ris = p \<and>
      assoc_rates_time_squence p N_e N_i r_mean r_max g =
        (Inr (replicate (fact p) (hstack res ! 0), replicate (fact p) (hstack ris ! 0)), g') \<and>
      hstack res ! 0 = concat (map (\<lambda>re1. re1 ! 0) res) \<and>
      hstack ris ! 0 = concat (map (\<lambda>ri1. ri1 ! 0) ris) \<and>
      length (hstack res ! 0) = p * (N_e div p) \<and>
      length (hstack ris ! 0) = p * (N_i div p)"
proof -
  have "0 < p" using assms(1) by simp
  from assoc_rates_time_squence_first_row [OF this assms(2)] show ?thesis .
qed

theorem assoc_rates_time_squence_identical_witness:
  "(1::nat) \<le> 2 \<and> (10::real) \<noteq> 0 \<and>
   fst (sparse_rates_repeat 2 2 (5 div 2) (3 div 2) 5 10
          ((\<lambda>i. if even i then 1 / 10 else 9 / 10), 0))
     = Inr ([[[1 / 100, 0], [0, 1 / 100]], [[1 / 100, 0], [0, 1 / 100]]],
            [[[1 / 100], [0]], [[1 / 100], [0]]]) \<and>
   fst (assoc_rates_time_squence 2 5 3 5 10 ((\<lambda>i. if even i then 1 / 10 else 9 / 10), 0))
     = Inr (replicate (fact 2) [1 / 100, 0, 1 / 100, 0], replicate (fact 2) [1 / 100, 1 / 100])"
proof -
  have h: "(1::nat) \<le> 2" "(10::real) \<noteq> 0"
    by simp_all
  from assoc_rates_time_squence_identical [OF h, of 5 3 5
      "((\<lambda>i. if even i then 1 / 10 else 9 / 10), 0)"]
  obtain res ris g' where
    rep: "sparse_rates_repeat 2 2 (5 div 2) (3 div 2) 5 10
            ((\<lambda>i. if even i then 1 / 10 else 9 / 10), 0) = (Inr (res, ris), g')"
    and val: "assoc_rates_time_squence 2 5 3 5 10 ((\<lambda>i. if even i then 1 / 10 else 9 / 10), 0) =
        (Inr (replicate (fact 2) (hstack res ! 0), replicate (fact 2) (hstack ris ! 0)), g')"
    and rows: "hstack res ! 0 = concat (map (\<lambda>re1. re1 ! 0) res)"
      "hstack ris ! 0 = concat (map (\<lambda>ri1. ri1 ! 0) ris)"
    by blast
  have "Inr (res, ris) = Inr ([[[1 / 100, 0], [0, 1 / 100]], [[1 / 100, 0], [0, 1 / 100]]],
            [[[1 / 100 :: real], [0]], [[1 / 100], [0]]]) "
    using sparse_rates_repeat_example rep by simp
  then have r: "res = [[[1 / 100, 0], [0, 1 / 100]], [[1 / 100, 0], [0, 1 / 100]]]"
      "ris = [[[1 / 100], [0]], [[1 / 100], [0]]]"
    by simp_all
  have "hstack res ! 0 = [1 / 100, 0, 1 / 100, 0]" "hstack ris ! 0 = [1 / 100, 1 / 100]"
    using rows unfolding r by simp_all
  then show ?thesis
    using h sparse_rates_repeat_example val by simp
qed

section \<open>Properties of the generators\<close>

lemma exponential_inv_Inr:
  assumes "exponential_inv rate g = (Inr a, g')"
  shows "g' = (fst g, Suc (snd g)) \<and> a = 1 / rate * fst g (snd g) \<and> 0 < rate"
  using assms
  by (auto simp: exponential_inv_def exponential_def not_less split: if_splits)

lemma exponential_inv_Inl:
  assumes "exponential_inv rate g = (Inl e, g')"
  shows "g' = g"
  using assms
  by (auto simp: exponential_inv_def exponential_def split: if_splits)

lemma append_until_invariant:
  assumes "append_until rate1 horizon spike_times g = Some y"
  shows "(\<forall>k. 0 \<le> fst g k) \<longrightarrow> nonneg_fin spike_times \<longrightarrow>
     fst (snd y) = fst g \<and> (\<forall>st. fst y = Inr st \<longrightarrow> nonneg_fin st)"
proof (rule append_until.raw_induct
    [where P = "\<lambda>rate1 horizon spike_times g y. (\<forall>k. 0 \<le> fst g k) \<longrightarrow> nonneg_fin spike_times \<longrightarrow>
       fst (snd y) = fst g \<and> (\<forall>st. fst y = Inr st \<longrightarrow> nonneg_fin st)", OF _ assms])
  fix f rate1 horizon spike_times g y
  assume IH: "\<And>rate1 horizon spike_times g y. f rate1 horizon spike_times g = Some y \<Longrightarrow>
      (\<forall>k. 0 \<le> fst g k) \<longrightarrow> nonneg_fin spike_times \<longrightarrow>
       fst (snd y) = fst g \<and> (\<forall>st. fst y = Inr st \<longrightarrow> nonneg_fin st)"
    and eq: "(if xsum spike_times < Fin horizon
          then case exponential_inv rate1 g of
                 (Inl e, g') \<Rightarrow> Some (Inl e, g')
               | (Inr a, g') \<Rightarrow> f rate1 horizon (spike_times @ [Fin a]) g'
          else Some (Inr spike_times, g)) = Some y"
  show "(\<forall>k. 0 \<le> fst g k) \<longrightarrow> nonneg_fin spike_times \<longrightarrow>
       fst (snd y) = fst g \<and> (\<forall>st. fst y = Inr st \<longrightarrow> nonneg_fin st)"
  proof (intro impI)
    assume pos: "\<forall>k. 0 \<le> fst g k" and nn: "nonneg_fin spike_times"
    show "fst (snd y) = fst g \<and> (\<forall>st. fst y = Inr st \<longrightarrow> nonneg_fin st)"
    proof (cases "xsum spike_times < Fin horizon")
      case False
      with eq nn show ?thesis by auto
    next
      case True
      obtain r g' where draw: "exponential_inv rate1 g = (r, g')"
        by (metis surj_pair)
      show ?thesis
      proof (cases r)
        case (Inl e)
        with eq True draw exponential_inv_Inl [of rate1 g e g'] show ?thesis by auto
      next
        case (Inr a)
        have ex: "g' = (fst g, Suc (snd g))" "a = 1 / rate1 * fst g (snd g)" "0 < rate1"
          using exponential_inv_Inr [of rate1 g a g'] draw Inr by auto
        have a0: "0 \<le> a"
          using ex pos by simp
        have call: "f rate1 horizon (spike_times @ [Fin a]) g' = Some y"
          using eq True draw Inr by simp
        have "fst (snd y) = fst g' \<and> (\<forall>st. fst y = Inr st \<longrightarrow> nonneg_fin st)"
          using IH [OF call] ex pos nn a0 by (simp add: nonneg_fin_def)
        then show ?thesis using ex by simp
      qed
    qed
  qed
qed


lemma PInf_top [simp]: "x \<le> PInf"
  by (cases x) simp_all

lemma PInf_le_iff [simp]: "PInf \<le> x \<longleftrightarrow> x = PInf"
  by (cases x) simp_all

lemma sorted_all_PInf:
  "sorted (PInf # xs) \<Longrightarrow> xs = replicate (length xs) PInf"
  by (induction xs) auto

lemma sorted_row_invariant:
  assumes "sorted row"
  shows "row_invariant row"
  using assms
proof (induction row)
  case Nil
  then show ?case by (simp add: row_invariant_def)
next
  case (Cons x row)
  show ?case
  proof (cases x)
    case PInf
    have "row = replicate (length row) PInf"
      using Cons.prems PInf sorted_all_PInf [of row] by simp
    then have "PInf # row = replicate (Suc (length row)) PInf"
      by simp
    with PInf show ?thesis
      by (simp add: row_invariant_def)
  next
    case (Fin a)
    have tail: "row_invariant row"
      using Cons by simp
    have "sorted (x # takeWhile (\<lambda>x. x \<noteq> PInf) row)"
      using Cons.prems sorted_takeWhile [of "x # row" "\<lambda>x. x \<noteq> PInf"] Fin by simp
    then show ?thesis
      using tail Fin
      by (simp add: row_invariant_def Let_def Suc_diff_le length_takeWhile_le)
  qed
qed

lemma sorted_append_PInf: "sorted s \<Longrightarrow> sorted (s @ replicate n PInf)"
  by (simp add: sorted_append)

lemma xshift_mono: "x \<le> y \<Longrightarrow> xshift d x \<le> xshift d y"
  by (cases x; cases y) simp_all

lemma sorted_map_xshift: "sorted xs \<Longrightarrow> sorted (map (xshift d) xs)"
  by (induction xs) (auto simp: xshift_mono)

lemma nonneg_fin_butlast: "nonneg_fin xs \<Longrightarrow> nonneg_fin (butlast xs)"
  by (induction xs) (auto simp: nonneg_fin_def)

lemma cumsum_from_sorted:
  "nonneg_fin xs \<Longrightarrow>
     sorted (cumsum_from (Fin c) xs) \<and> (\<forall>x\<in>set (cumsum_from (Fin c) xs). Fin c \<le> x)"
proof (induction xs arbitrary: c)
  case Nil
  then show ?case by simp
next
  case (Cons x xs)
  then obtain a where x: "x = Fin a" "0 \<le> a" and rest: "nonneg_fin xs"
    by (cases x) (auto simp: nonneg_fin_def)
  have IH: "sorted (cumsum_from (Fin (c + a)) xs)"
      "\<forall>y\<in>set (cumsum_from (Fin (c + a)) xs). Fin (c + a) \<le> y"
    using Cons.IH [OF rest, of "c + a"] by auto
  have "\<forall>y\<in>set (cumsum_from (Fin (c + a)) xs). Fin c \<le> y"
  proof
    fix y assume "y \<in> set (cumsum_from (Fin (c + a)) xs)"
    then have "Fin (c + a) \<le> y" using IH(2) by blast
    moreover have "Fin c \<le> Fin (c + a)" using x(2) by simp
    ultimately show "Fin c \<le> y" by (rule order_trans [rotated])
  qed
  then show ?case
    using IH x by simp
qed

lemma append_until_PInf: "append_until rate1 horizon [PInf] g = Some (Inr [PInf], g)"
  by (simp add: append_until.simps xsum_def)

lemma stationary_train_sorted:
  assumes "stationary_train rate rate1 T0 T g = Some (res, g')" and "\<forall>k. 0 \<le> fst g k"
  shows "fst g' = fst g \<and> (\<forall>s. res = Inr s \<longrightarrow> sorted s)"
proof (cases "rate > 0")
  case False
  then have "stationary_train rate rate1 T0 T g = Some (Inr [], g)"
    by (simp add: stationary_train_def first_spike_def append_until_PInf cumsum_def)
  with assms(1) show ?thesis by auto
next
  case True
  obtain r g1 where draw: "exponential_inv rate1 g = (r, g1)"
    by (metis surj_pair)
  show ?thesis
  proof (cases r)
    case (Inl e)
    with assms(1) True draw exponential_inv_Inl [of rate1 g e g1] show ?thesis
      by (auto simp: stationary_train_def first_spike_def)
  next
    case (Inr a)
    have ex: "g1 = (fst g, Suc (snd g))" "a = 1 / rate1 * fst g (snd g)" "0 < rate1"
      using exponential_inv_Inr [of rate1 g a g1] draw Inr by auto
    have a0: "0 \<le> a" using ex assms(2) by simp
    have fs: "first_spike rate rate1 g = (Inr [Fin a], g1)"
      using True draw Inr by (simp add: first_spike_def)
    show ?thesis
    proof (cases "append_until rate1 (T - T0) [Fin a] g1")
      case None
      with assms(1) fs show ?thesis by (simp add: stationary_train_def)
    next
      case (Some y)
      have inv: "fst (snd y) = fst g1 \<and> (\<forall>st. fst y = Inr st \<longrightarrow> nonneg_fin st)"
        using append_until_invariant [OF Some] ex assms(2) a0 by (simp add: nonneg_fin_def)
      obtain r2 g2 where y: "y = (r2, g2)" by (metis surj_pair)
      show ?thesis
      proof (cases r2)
        case (Inl e)
        with assms(1) fs Some y inv ex show ?thesis
          by (auto simp: stationary_train_def)
      next
        case (Inr st)
        have "nonneg_fin (butlast st)"
          using inv y Inr nonneg_fin_butlast by simp
        then have "sorted (map (xshift T0) (cumsum (butlast st)))"
          using cumsum_from_sorted [of "butlast st" 0] sorted_map_xshift by (simp add: cumsum_def)
        with assms(1) fs Some y Inr inv ex show ?thesis
          by (auto simp: stationary_train_def)
      qed
    qed
  qed
qed

lemma window_spikes_stream:
  assumes "window_spikes fr t_next t_spike spike_train g = Some y"
  shows "fst (snd y) = fst g"
proof (rule window_spikes.raw_induct
    [where P = "\<lambda>fr t_next t_spike spike_train g y. fst (snd y) = fst g", OF _ assms])
  fix f fr t_next t_spike spike_train g y
  assume IH: "\<And>fr t_next t_spike spike_train g y.
        f fr t_next t_spike spike_train g = Some y \<Longrightarrow> fst (snd y) = fst g"
    and eq: "(if t_spike < t_next
          then case exponential_inv fr g of
                 (Inl e, g') \<Rightarrow> Some (Inl e, g')
               | (Inr a, g') \<Rightarrow>
                   f fr t_next (t_spike + a)
                     (if t_spike + a < t_next \<and> 0 < a then spike_train @ [t_spike + a]
                      else spike_train) g'
          else Some (Inr spike_train, g)) = Some y"
  show "fst (snd y) = fst g"
  proof (cases "t_spike < t_next")
    case False
    with eq show ?thesis by auto
  next
    case True
    obtain r g' where draw: "exponential_inv fr g = (r, g')"
      by (metis surj_pair)
    show ?thesis
    proof (cases r)
      case (Inl e)
      with eq True draw exponential_inv_Inl [of fr g e g'] show ?thesis by auto
    next
      case (Inr a)
      have ex: "g' = (fst g, Suc (snd g))"
        using exponential_inv_Inr [of fr g a g'] draw Inr by auto
      have "f fr t_next (t_spike + a)
              (if t_spike + a < t_next \<and> 0 < a then spike_train @ [t_spike + a] else spike_train) g'
            = Some y"
        using eq True draw Inr by simp
      from IH [OF this] show ?thesis using ex by simp
    qed
  qed
qed

lemma windows_loop_stream:
  "windows_loop ws t_squ spike_train g = Some y \<Longrightarrow> fst (snd y) = fst g"
proof (induction ws arbitrary: spike_train g)
  case Nil
  then show ?case by auto
next
  case (Cons w ws)
  obtain i fr where w: "w = (i, fr)" by (metis surj_pair)
  show ?case
  proof (cases "fr \<le> 0")
    case True
    with Cons w show ?thesis by simp
  next
    case False
    show ?thesis
    proof (cases "window_spikes fr (t_squ ! (i + 1)) (t_squ ! i) spike_train g")
      case None
      with Cons.prems w False show ?thesis by simp
    next
      case (Some z)
      have st: "fst (snd z) = fst g"
        using window_spikes_stream [OF Some] .
      obtain r g' where z: "z = (r, g')" by (metis surj_pair)
      show ?thesis
      proof (cases r)
        case (Inl e)
        with Cons.prems w False Some z st show ?thesis by auto
      next
        case (Inr st')
        with Cons.prems w False Some z have "windows_loop ws t_squ st' g' = Some y"
          by simp
        from Cons.IH [OF this] st z show ?thesis by simp
      qed
    qed
  qed
qed

lemma gen_poisson_spikes_stream:
  "gen_poisson_spikes FR t_win dt tstop g = Some y \<Longrightarrow> fst (snd y) = fst g"
  by (auto simp: gen_poisson_spikes_def split: sum.splits if_splits dest: windows_loop_stream)

lemma sorted_map_Fin_add: "sorted xs \<Longrightarrow> sorted (map (\<lambda>x. Fin (T0 + x)) xs)"
  by (induction xs) auto

lemma modulated_train_sorted:
  assumes "modulated_train rate rate1 mod_freq t t_win dt T0 T g = Some (res, g')"
  shows "fst g' = fst g \<and> (\<forall>s. res = Inr s \<longrightarrow> sorted s)"
proof (cases "rate > 0")
  case False
  with assms show ?thesis by (auto simp: modulated_train_def)
next
  case True
  let ?FR = "map (\<lambda>x. rate1 * sin (2 * pi * mod_freq * x / 1000 + pi / 2) + rate1) t"
  show ?thesis
  proof (cases "gen_poisson_spikes ?FR t_win dt (T - T0) g")
    case None
    with assms True show ?thesis by (simp add: modulated_train_def)
  next
    case (Some y)
    have st: "fst (snd y) = fst g"
      using gen_poisson_spikes_stream [OF Some] .
    obtain r g1 where y: "y = (r, g1)" by (metis surj_pair)
    show ?thesis
      using assms True Some y st
      by (cases r) (auto simp: modulated_train_def sorted_map_Fin_add)
  qed
qed

lemma modulated_row_sorted:
  assumes "modulated_row T0 T mod_freq mod_list t t_win dt mod_amp i rate g = Some (res, g')"
    and "\<forall>k. 0 \<le> fst g k"
  shows "fst g' = fst g \<and> (\<forall>s. res = Inr s \<longrightarrow> sorted s)"
  using assms
  by (auto simp: modulated_row_def split: if_splits
      dest!: stationary_train_sorted modulated_train_sorted)

lemma rows_loop_sorted:
  assumes row: "\<And>i rate g res g'. row i rate g = Some (res, g') \<Longrightarrow> \<forall>k. 0 \<le> fst g k \<Longrightarrow>
      fst g' = fst g \<and> (\<forall>s. res = Inr s \<longrightarrow> sorted s)"
  shows "rows_loop row irs g = Some (Inr s_k, g') \<Longrightarrow> \<forall>k. 0 \<le> fst g k \<Longrightarrow> list_all sorted s_k"
proof (induction irs arbitrary: g s_k)
  case Nil
  then show ?case by simp
next
  case (Cons ir irs)
  obtain i rate where ir: "ir = (i, rate)" by (metis surj_pair)
  from Cons.prems(1) ir obtain s g1 where first: "row i rate g = Some (Inr s, g1)"
    by (auto split: option.splits sum.splits)
  from Cons.prems(1) ir first obtain rest where
    rest: "rows_loop row irs g1 = Some (Inr rest, g')" and s_k: "s_k = s # rest"
    by (auto split: option.splits sum.splits)
  have r1: "fst g1 = fst g" "sorted s"
    using row [OF first Cons.prems(2)] by auto
  have "list_all sorted rest"
    using Cons.IH [OF rest] r1 Cons.prems(2) by simp
  then show ?case using s_k r1 by simp
qed

lemma pad_rows_invariant:
  assumes "pad_rows s_k = Inr S" and "list_all sorted s_k"
  shows "list_all row_invariant S"
proof -
  have S: "S = map (\<lambda>s. s @ replicate (foldr max (map length s_k) 0 - length s) PInf) s_k"
    using assms(1) by (auto simp: pad_rows_def Let_def split: if_splits)
  show ?thesis
    unfolding S using assms(2)
    by (auto simp: list_all_iff intro!: sorted_row_invariant sorted_append_PInf)
qed

lemma superimpose_invariant:
  assumes "superimpose A B = Inr S"
  shows "list_all row_invariant S"
  using assms
  by (auto simp: superimpose_def list_all_iff split: if_splits
      intro!: sorted_row_invariant dest!: set_zip_leftD)

lemma xsum_snoc: "xsum (st @ [x]) = xadd (xsum st) x"
  by (simp add: xsum_def)

lemma append_until_returns_bounded:
  assumes "0 < rate1" and "0 < \<delta>"
  shows "(\<forall>k. \<delta> \<le> fst g k) \<Longrightarrow> xsum st = Fin s \<Longrightarrow> horizon - s \<le> real n * (\<delta> / rate1) \<Longrightarrow>
     \<exists>st' g'. append_until rate1 horizon st g = Some (Inr st', g')"
proof (induction n arbitrary: st s g)
  case 0
  then have "\<not> xsum st < Fin horizon" by simp
  then show ?case by (subst append_until.simps) simp
next
  case (Suc n)
  show ?case
  proof (cases "xsum st < Fin horizon")
    case False
    then show ?thesis by (subst append_until.simps) simp
  next
    case True
    let ?a = "1 / rate1 * fst g (snd g)"
    let ?g = "(fst g, Suc (snd g))"
    have draw: "exponential_inv rate1 g = (Inr ?a, ?g)"
      using assms(1) by (simp add: exponential_inv_def exponential_def)
    have "\<delta> \<le> fst g (snd g)" using Suc.prems(1) by blast
    then have a: "\<delta> / rate1 \<le> ?a"
      using assms(1) by (simp add: divide_right_mono)
    have sum': "xsum (st @ [Fin ?a]) = Fin (s + ?a)"
      using Suc.prems(2) by (simp add: xsum_snoc)
    have "horizon - (s + ?a) \<le> real (Suc n) * (\<delta> / rate1) - \<delta> / rate1"
      using Suc.prems(3) a by linarith
    also have "\<dots> = real n * (\<delta> / rate1)"
      by (simp add: algebra_simps)
    finally have bound: "horizon - (s + ?a) \<le> real n * (\<delta> / rate1)" .
    have "\<forall>k. \<delta> \<le> fst ?g k" using Suc.prems(1) by simp
    from Suc.IH [OF this sum' bound]
    obtain st' g' where "append_until rate1 horizon (st @ [Fin ?a]) ?g = Some (Inr st', g')"
      by blast
    then show ?thesis
      using True draw by (subst append_until.simps) simp
  qed
qed

lemma append_until_returns:
  assumes "0 < rate1" and "0 < \<delta>" and "\<forall>k. \<delta> \<le> fst g k" and "xsum st = Fin s"
  shows "\<exists>st' g'. append_until rate1 horizon st g = Some (Inr st', g')"
proof -
  have eps: "0 < \<delta> / rate1" using assms(1,2) by simp
  obtain n where "(horizon - s) / (\<delta> / rate1) < real n"
    using reals_Archimedean2 by blast
  then have "horizon - s < real n * (\<delta> / rate1)"
    using pos_divide_less_eq [OF eps] by blast
  then have "horizon - s \<le> real n * (\<delta> / rate1)"
    by (rule less_imp_le)
  from append_until_returns_bounded [OF assms(1,2,3,4) this] show ?thesis .
qed

lemma stationary_train_zero:
  "rate \<le> 0 \<Longrightarrow> stationary_train rate rate1 T0 T g = Some (Inr [], g)"
  by (simp add: stationary_train_def first_spike_def append_until_PInf cumsum_def)

lemma stationary_train_returns:
  assumes "0 < \<delta>" and "\<forall>k. \<delta> \<le> fst g k"
  shows "\<exists>s g'. stationary_train rate rate T0 T g = Some (Inr s, g') \<and> fst g' = fst g"
proof (cases "rate > 0")
  case False
  then show ?thesis by (simp add: stationary_train_zero)
next
  case True
  let ?a = "1 / rate * fst g (snd g)"
  let ?g = "(fst g, Suc (snd g))"
  have fs: "first_spike rate rate g = (Inr [Fin ?a], ?g)"
    using True by (simp add: first_spike_def exponential_inv_def exponential_def)
  have "\<forall>k. \<delta> \<le> fst ?g k" using assms(2) by simp
  from append_until_returns [OF True assms(1) this, of "[Fin ?a]" ?a "T - T0"]
  obtain st' g' where loop: "append_until rate (T - T0) [Fin ?a] ?g = Some (Inr st', g')"
    by (auto simp: xsum_def)
  have res: "stationary_train rate rate T0 T g
          = Some (Inr (map (xshift T0) (cumsum (butlast st'))), g')"
    using fs loop by (simp add: stationary_train_def)
  have "\<forall>k. 0 \<le> fst g k"
    using assms by (meson less_imp_le order_trans)
  from stationary_train_sorted [OF res this] res show ?thesis by simp
qed

lemma rows_loop_returns:
  assumes "0 < \<delta>"
  shows "\<forall>k. \<delta> \<le> fst g k \<Longrightarrow>
    \<exists>s_k g'. rows_loop (\<lambda>i rate. stationary_train rate rate T0 T) irs g = Some (Inr s_k, g')"
proof (induction irs arbitrary: g)
  case Nil
  then show ?case by simp
next
  case (Cons ir irs)
  obtain i rate where ir: "ir = (i, rate)" by (metis surj_pair)
  obtain s g1 where first: "stationary_train rate rate T0 T g = Some (Inr s, g1)" "fst g1 = fst g"
    using stationary_train_returns [OF assms Cons.prems] by blast
  have "\<forall>k. \<delta> \<le> fst g1 k" using first(2) Cons.prems by simp
  from Cons.IH [OF this] obtain s_k g' where
    "rows_loop (\<lambda>i rate. stationary_train rate rate T0 T) irs g1 = Some (Inr s_k, g')"
    by blast
  then show ?case using ir first by simp
qed

lemma rows_loop_length:
  "rows_loop row irs g = Some (Inr s_k, g') \<Longrightarrow> length s_k = length irs"
proof (induction irs arbitrary: g s_k)
  case Nil
  then show ?case by simp
next
  case (Cons ir irs)
  obtain i rate where ir: "ir = (i, rate)" by (metis surj_pair)
  from Cons.prems ir obtain s g1 rest where
    "rows_loop row irs g1 = Some (Inr rest, g')" "s_k = s # rest"
    by (auto split: option.splits sum.splits)
  then show ?case using Cons.IH by auto
qed

lemma rows_loop_zero_rate:
  "rows_loop (\<lambda>i rate. stationary_train rate rate T0 T) irs g = Some (Inr s_k, g') \<Longrightarrow>
     j < length irs \<Longrightarrow> snd (irs ! j) \<le> 0 \<Longrightarrow> s_k ! j = []"
proof (induction irs arbitrary: g s_k j)
  case Nil
  then show ?case by simp
next
  case (Cons ir irs)
  obtain i rate where ir: "ir = (i, rate)" by (metis surj_pair)
  from Cons.prems(1) ir obtain s g1 where first: "stationary_train rate rate T0 T g = Some (Inr s, g1)"
    by (auto split: option.splits sum.splits)
  from Cons.prems(1) ir first obtain rest where
    rest: "rows_loop (\<lambda>i rate. stationary_train rate rate T0 T) irs g1 = Some (Inr rest, g')"
    and s_k: "s_k = s # rest"
    by (auto split: option.splits sum.splits)
  show ?case
  proof (cases j)
    case 0
    then have "rate \<le> 0" using Cons.prems(3) ir by simp
    then show ?thesis
      using first s_k 0 by (simp add: stationary_train_zero)
  next
    case (Suc j')
    then show ?thesis
      using Cons.IH [OF rest, of j'] Cons.prems(2,3) s_k by simp
  qed
qed

lemma pad_rows_empty_row:
  assumes "pad_rows s_k = Inr S" and "j < length s_k" and "s_k ! j = []"
  shows "j < length S \<and> filter (\<lambda>x. x \<noteq> PInf) (S ! j) = []"
proof -
  have S: "S = map (\<lambda>s. s @ replicate (foldr max (map length s_k) 0 - length s) PInf) s_k"
    using assms(1) by (auto simp: pad_rows_def Let_def split: if_splits)
  show ?thesis
    unfolding S using assms(2,3) by simp
qed

lemmas build_rate_seq_eval = build_rate_seq_def padded_def pad_rows_def stationary_train_def first_spike_def
     exponential_inv_def exponential_def np_random_seed_def append_until.simps xsum_def cumsum_def


text \<open>
  Claim C6. If entry \<open>i\<close> of \<open>rates\<close> is 0, then in every array that
  \<open>build_rate_seq\<close> returns, row \<open>i\<close> has no real entry: it consists of sentinels
  only. The call does return an array whenever the standard exponential variates of
  the seeded stream are bounded below by some \<open>\<delta> > 0\<close>.
\<close>

theorem zero_rate_row:
  assumes "i < length rates" and "rates ! i = 0"
  shows "(build_rate_seq seeded now g rates T0 T = Some (Inr S, g') \<longrightarrow>
            i < length S \<and> filter (\<lambda>x. x \<noteq> PInf) (S ! i) = []) \<and>
         (0 < \<delta> \<and> (\<forall>k. \<delta> \<le> seeded now k) \<longrightarrow>
            (\<exists>S g'. build_rate_seq seeded now g rates T0 T = Some (Inr S, g')))"
proof (rule conjI; rule impI)
  assume run: "build_rate_seq seeded now g rates T0 T = Some (Inr S, g')"
  let ?irs = "zip [0..<length rates] rates"
  from run obtain s_k where
    loop: "rows_loop (\<lambda>i rate. stationary_train rate rate T0 T) ?irs (np_random_seed seeded now)
             = Some (Inr s_k, g')"
    and pad: "pad_rows s_k = Inr S"
    by (auto simp: build_rate_seq_def padded_def split: option.splits sum.splits)
  have len: "length s_k = length rates"
    using rows_loop_length [OF loop] by simp
  have "snd (?irs ! i) \<le> 0"
    using assms by simp
  then have "s_k ! i = []"
    using rows_loop_zero_rate [OF loop, of i] assms(1) by simp
  then show "i < length S \<and> filter (\<lambda>x. x \<noteq> PInf) (S ! i) = []"
    using pad_rows_empty_row [OF pad, of i] len assms(1) by simp
next
  assume "0 < \<delta> \<and> (\<forall>k. \<delta> \<le> seeded now k)"
  then have d: "0 < \<delta>" and "\<forall>k. \<delta> \<le> fst (np_random_seed seeded now) k"
    by (simp_all add: np_random_seed_def)
  from rows_loop_returns [OF this, of T0 T "zip [0..<length rates] rates"]
  obtain s_k g' where
    loop: "rows_loop (\<lambda>i rate. stationary_train rate rate T0 T) (zip [0..<length rates] rates)
             (np_random_seed seeded now) = Some (Inr s_k, g')"
    by blast
  have "length s_k = length rates"
    using rows_loop_length [OF loop] by simp
  then have "s_k \<noteq> []" using assms(1) by auto
  then show "\<exists>S g'. build_rate_seq seeded now g rates T0 T = Some (Inr S, g')"
    using loop by (simp add: build_rate_seq_def padded_def pad_rows_def Let_def)
qed

theorem zero_rate_row_witness:
  "build_rate_seq (\<lambda>n i. 1 / 5) 0 (\<lambda>i. 0, 0) [1 / 100, 0] 0 50
     = Some (Inr [[Fin 20, Fin 40], [PInf, PInf]], (\<lambda>i. 1 / 5, 3)) \<and>
   (1::nat) < length [1 / 100, 0 :: real] \<and> [1 / 100, 0 :: real] ! 1 = 0 \<and>
   filter (\<lambda>x. x \<noteq> PInf) ([[Fin 20, Fin 40], [PInf, PInf]] ! 1) = []"
  using zero_rate_row [of 1 "[1 / 100, 0]" "\<lambda>n i. 1 / 5" 0 "(\<lambda>i. 0, 0)" 0 50
      "[[Fin 20, Fin 40], [PInf, PInf]]" "(\<lambda>i. 1 / 5, 3)"]
  by (simp add: build_rate_seq_eval)

text \<open>
  Claim C2, as amended. \<open>build_rate_seq\<close> reseeds the generator from the clock before
  it draws, so its result is a function of the clock reading \<open>now\<close> and of its
  arguments, and does not depend on the state \<open>g\<close> of the generator at the call (for
  instance the state set by the caller's own \<^verbatim>\<open>np.random.seed\<close>).
\<close>

theorem build_rate_seq_reseeds:
  "build_rate_seq seeded now g rates T0 T = build_rate_seq seeded now g' rates T0 T"
  by (simp add: build_rate_seq_def)

text \<open>
  The claim as stated fails: two runs of \<open>build_rate_seq([0.01], 0, 1000)\<close> that both
  start from the generator state of seed 42, at the clock readings 0 and 1, return
  different arrays when the streams of the seeds 0 and 1 differ (here the constant
  streams 5 and 6 of standard exponential variates).
\<close>

theorem build_rate_seq_seed_counterexample:
  "build_rate_seq (\<lambda>n i. if n = 0 then 5 else 6) 0
       (np_random_seed (\<lambda>n i. if n = 0 then 5 else 6) 42) [1 / 100] 0 1000
     = Some (Inr [[Fin 500]], (\<lambda>i. 5, 2)) \<and>
   build_rate_seq (\<lambda>n i. if n = 0 then 5 else 6) 1
       (np_random_seed (\<lambda>n i. if n = 0 then 5 else 6) 42) [1 / 100] 0 1000
     = Some (Inr [[Fin 600]], (\<lambda>i. 6, 2)) \<and>
   build_rate_seq (\<lambda>n i. if n = 0 then 5 else 6) 0
       (np_random_seed (\<lambda>n i. if n = 0 then 5 else 6) 42) [1 / 100] 0 1000
     \<noteq> build_rate_seq (\<lambda>n i. if n = 0 then 5 else 6) 1
       (np_random_seed (\<lambda>n i. if n = 0 then 5 else 6) 42) [1 / 100] 0 1000"
  by (simp add: build_rate_seq_eval)

text \<open>
  Claim C3, at the failing input \<open>FR = [5]\<close>, \<open>t_win = 10\<close>, \<open>dt = 0.025\<close>,
  \<open>tstop = 250\<close>: one rate for 25 windows. The call does not warn and continue: it
  raises \<^verbatim>\<open>NameError\<close>, before any draw.
\<close>

theorem gen_poisson_spikes_name_error:
  "gen_poisson_spikes [5] 10 (25 / 1000) 250 g = Some (Inl NameError, g)"
  by (simp add: gen_poisson_spikes_def arange_def)

lemmas build_rate_seq_modulated_eval = build_rate_seq_modulated_def modulated_row_def modulated_train_def
  gen_poisson_spikes_def arange_def window_spikes.simps

lemma build_rate_seq_modulated_example:
  "build_rate_seq_modulated (\<lambda>n i. 1 / 5) 0 g [1 / 100] 0 10 5 [] 10 (1 / 10) (5 / 2)
     = Some (Inr [[Fin 4, Fin 8]], (\<lambda>i. 1 / 5, 3))"
  by (simp add: build_rate_seq_modulated_eval padded_def pad_rows_def np_random_seed_def exponential_inv_def exponential_def
      upt_rec [of 0 2] upt_rec [of 1 2])

lemma build_rate_seq_example:
  "build_rate_seq (\<lambda>n i. 1 / 5) 0 g [1 / 100, 0] 0 50
     = Some (Inr [[Fin 20, Fin 40], [PInf, PInf]], (\<lambda>i. 1 / 5, 3))"
  by (simp add: build_rate_seq_eval)

lemma superimpose_example:
  "superimpose [[Fin 1, Fin 2, PInf]] [[Fin (1 / 2), PInf, PInf]]
     = Inr [[Fin (1 / 2), Fin 1, Fin 2, PInf, PInf, PInf]]"
  by (simp add: superimpose_def)

text \<open>
  Claim C9. Every row of an array returned by \<open>build_rate_seq\<close>, by
  \<open>build_rate_seq_modulated\<close> or by \<open>superimpose\<close> satisfies the row invariant: the
  real entries come first, in ascending order, and the sentinels follow. For the two
  generators this uses that the standard exponential variates of numpy are not
  negative.
\<close>

theorem padded_rows_invariant:
  assumes "\<forall>k. 0 \<le> seeded now k"
  shows "(build_rate_seq seeded now g rates T0 T = Some (Inr S1, g1) \<longrightarrow>
            list_all row_invariant S1) \<and>
         (build_rate_seq_modulated seeded now g rates' T0' T' mod_freq mod_list t_win dt mod_amp
              = Some (Inr S2, g2) \<longrightarrow> list_all row_invariant S2) \<and>
         (superimpose A B = Inr S3 \<longrightarrow> list_all row_invariant S3)"
proof (intro conjI impI)
  have pos: "\<forall>k. 0 \<le> fst (np_random_seed seeded now) k"
    using assms by (simp add: np_random_seed_def)
  {
    assume "build_rate_seq seeded now g rates T0 T = Some (Inr S1, g1)"
    then obtain s_k where
      loop: "rows_loop (\<lambda>i rate. stationary_train rate rate T0 T) (zip [0..<length rates] rates)
               (np_random_seed seeded now) = Some (Inr s_k, g1)"
      and pad: "pad_rows s_k = Inr S1"
      by (auto simp: build_rate_seq_def padded_def split: option.splits sum.splits)
    have "list_all sorted s_k"
      by (rule rows_loop_sorted [OF _ loop pos]) (rule stationary_train_sorted)
    then show "list_all row_invariant S1"
      by (rule pad_rows_invariant [OF pad])
  }
  {
    assume "build_rate_seq_modulated seeded now g rates' T0' T' mod_freq mod_list t_win dt mod_amp
              = Some (Inr S2, g2)"
    then obtain t s_k where
      loop: "rows_loop (modulated_row T0' T' mod_freq mod_list t t_win dt mod_amp)
               (zip [0..<length rates'] rates') (np_random_seed seeded now) = Some (Inr s_k, g2)"
      and pad: "pad_rows s_k = Inr S2"
      by (auto simp: build_rate_seq_modulated_def padded_def split: option.splits sum.splits)
    have "list_all sorted s_k"
      by (rule rows_loop_sorted [OF _ loop pos]) (rule modulated_row_sorted)
    then show "list_all row_invariant S2"
      by (rule pad_rows_invariant [OF pad])
  }
  {
    assume "superimpose A B = Inr S3"
    then show "list_all row_invariant S3"
      by (rule superimpose_invariant)
  }
qed

theorem padded_rows_invariant_witness:
  "build_rate_seq (\<lambda>n i. 1 / 5) 0 (\<lambda>i. 0, 0) [1 / 100, 0] 0 50
     = Some (Inr [[Fin 20, Fin 40], [PInf, PInf]], (\<lambda>i. 1 / 5, 3)) \<and>
   build_rate_seq_modulated (\<lambda>n i. 1 / 5) 0 (\<lambda>i. 0, 0) [1 / 100] 0 10 5 [] 10 (1 / 10) (5 / 2)
     = Some (Inr [[Fin 4, Fin 8]], (\<lambda>i. 1 / 5, 3)) \<and>
   superimpose [[Fin 1, Fin 2, PInf]] [[Fin (1 / 2), PInf, PInf]]
     = Inr [[Fin (1 / 2), Fin 1, Fin 2, PInf, PInf, PInf]] \<and>
   list_all row_invariant [[Fin 20, Fin 40], [PInf, PInf]] \<and>
   list_all row_invariant [[Fin 4, Fin 8]] \<and>
   list_all row_invariant [[Fin (1 / 2), Fin 1, Fin 2, PInf, PInf, PInf]]"
  using padded_rows_invariant [of "\<lambda>n i. 1 / 5" 0 "(\<lambda>i. 0, 0)" "[1 / 100, 0]" 0 50
      "[[Fin 20, Fin 40], [PInf, PInf]]" "(\<lambda>i. 1 / 5, 3)"
      "[1 / 100]" 0 10 5 "[]" 10 "1 / 10" "5 / 2" "[[Fin 4, Fin 8]]" "(\<lambda>i. 1 / 5, 3)"
      "[[Fin 1, Fin 2, PInf]]" "[[Fin (1 / 2), PInf, PInf]]"
      "[[Fin (1 / 2), Fin 1, Fin 2, PInf, PInf, PInf]]"]
  by (simp add: build_rate_seq_example build_rate_seq_modulated_example superimpose_example)

section \<open>Properties of the non-homogeneous generator\<close>










end
